theory Spec2Isabelle
  imports Complex_Main "HOL-Library.Word" "HOL-Library.AList" "HOL-Library.Sublist"
begin

section \<open>Values shared by the writer\<close>

type_synonym byte = "8 word"

text \<open>Opaque JSON carried through unchanged (asset, extras, extensions).\<close>

datatype json = JNull | JBool bool | JNum real | JStr string
  | JArr "json list" | JObj "(string \<times> json) list"

type_synonym jsobject = "(string \<times> json) list"

text \<open>Every throw of the writer. \<open>RangeError\<close> and \<open>TypeError\<close> are the
  errors the JavaScript runtime raises for a DataView write outside the buffer and
  for a property access on \<open>undefined\<close>.\<close>

text \<open>Identity of a property as the graph's links see it.\<close>

datatype property_ref = RootRef | AccessorRef nat | OtherRef nat

datatype error =
    UnimplementedBufferReference property_ref
  | AttributeOrIndexAccessorsMustBeUsedOnlyForThatPurpose
  | UnexpectedComponentType nat
  | RangeError
  | TypeError

text \<open>A loop whose body may throw: the first error ends it.\<close>

fun foldE :: "('a \<Rightarrow> 's \<Rightarrow> error + 's) \<Rightarrow> 'a list \<Rightarrow> 's \<Rightarrow> error + 's" where
  "foldE f [] s = Inr s"
| "foldE f (x # xs) s = (case f x s of Inl e \<Rightarrow> Inl e | Inr s' \<Rightarrow> foldE f xs s')"

section \<open>The property graph (input)\<close>

record property =
  getName :: string
  getExtras :: jsobject
  getExtensions :: jsobject

text \<open>A value read from a typed array: \<open>array[k]\<close> is \<open>undefined\<close> past the end.\<close>

datatype jsvalue = Undefined | Number real

record typed_array =
  elements :: "real list"
  buffer :: "byte list"

definition array_get :: "typed_array \<Rightarrow> nat \<Rightarrow> jsvalue" where
  "array_get a k = (if k < length (elements a) then Number (elements a ! k) else Undefined)"

record accessor = property +
  acc_id :: nat
  getType :: string
  getComponentType :: nat
  getCount :: nat
  getElementSize :: nat
  getComponentSize :: nat
  getMax :: "real list"
  getMin :: "real list"
  getNormalized :: bool
  getArray :: typed_array

datatype link_kind = AttributeLink | IndexLink | Link

record link =
  kind :: link_kind
  getParent :: property_ref
  getChild :: property_ref

text \<open>What \<open>buffer.listParents()\<close> yields: the root, an accessor, or some other
  property (identified by a number).\<close>

datatype buffer_parent = ParentRoot | ParentAccessor accessor | ParentOther nat

record buffer = property +
  buf_getURI :: string
  listParents :: "buffer_parent list"

record texture = property +
  tex_id :: nat
  tex_getURI :: string
  getMimeType :: string
  getImage :: "byte list"

record writer_options =
  basename :: string
  isGLB :: bool
  embedded :: bool

section \<open>JSON definitions (output)\<close>

record property_def =
  def_name :: "string option"
  def_extras :: "jsobject option"
  def_extensions :: "jsobject option"

definition createPropertyDef :: "'a property_scheme \<Rightarrow> property_def" where
  "createPropertyDef p =
    (let d0 = \<lparr>def_name = None, def_extras = None, def_extensions = None\<rparr>;
         d1 = (if getName p \<noteq> [] then d0\<lparr>def_name := Some (getName p)\<rparr> else d0);
         d2 = (if length (map fst (getExtras p)) > 0
               then d1\<lparr>def_extras := Some (getExtras p)\<rparr> else d1);
         d3 = (if length (map fst (getExtensions p)) > 0
               then d2\<lparr>def_extras := Some (getExtensions p)\<rparr> else d2)
     in d3)"

record accessor_def =
  ad_prop :: property_def
  ad_type :: string
  ad_componentType :: nat
  ad_count :: nat
  ad_max :: "real list"
  ad_min :: "real list"
  ad_normalized :: bool
  ad_bufferView :: "nat option"
  ad_byteOffset :: "nat option"

definition createAccessorDef :: "accessor \<Rightarrow> accessor_def" where
  "createAccessorDef a =
    \<lparr>ad_prop = createPropertyDef a, ad_type = getType a,
     ad_componentType = getComponentType a, ad_count = getCount a,
     ad_max = getMax a, ad_min = getMin a, ad_normalized = getNormalized a,
     ad_bufferView = None, ad_byteOffset = None\<rparr>"

record buffer_view_def =
  bv_buffer :: nat
  bv_byteOffset :: int
  bv_byteLength :: nat
  bv_byteStride :: "nat option"
  bv_target :: "nat option"

record buffer_def =
  bd_prop :: property_def
  bd_uri :: "string option"
  bd_byteLength :: nat

record image_def =
  img_prop :: property_def
  img_mimeType :: "string option"
  img_bufferView :: "nat option"
  img_uri :: "string option"


record sampler_def =
  sd_magFilter :: "nat option"
  sd_minFilter :: "nat option"
  sd_wrapS :: nat
  sd_wrapT :: nat

record texture_def =
  td_source :: "nat option"
  td_sampler :: "nat option"

record texture_info_def =
  ti_index :: "nat option"
  ti_texCoord :: nat
  ti_scale :: "real option"
  ti_strength :: "real option"

section \<open>Collaborators outside the writer\<close>

text \<open>The package name \<open>NAME\<close> of \<open>../constants\<close>, the base64 encoder
  of \<open>BufferUtils\<close> and the IEEE-754 single-precision encoding done by
  \<open>DataView.setFloat32\<close> are taken as parameters.\<close>

record externals =
  NAME :: string
  encodeBufferToBase64 :: "byte list \<Rightarrow> string"
  float32 :: "jsvalue \<Rightarrow> 32 word"

text \<open>Modelled from the spec: \<open>BufferUtils.padNumber\<close> (\<open>padTo4\<close>) of
  \<open>../utils\<close> is not among the sources; it rounds up to the next multiple of 4.\<close>

definition padNumber :: "nat \<Rightarrow> nat" where
  "padNumber v = ((v + 3) div 4) * 4"

text \<open>Modelled from the spec: \<open>BufferUtils.pad\<close> of \<open>../utils\<close> is not among
  the sources; it pads the length to the next multiple of 4 with zero bytes.\<close>

definition pad :: "byte list \<Rightarrow> byte list" where
  "pad b = b @ replicate (padNumber (length b) - length b) 0"

text \<open>Modelled from the spec: the reserved sentinel \<open>GLB_BUFFER\<close> of
  \<open>../constants\<close>.\<close>

definition GLB_BUFFER :: string where
  "GLB_BUFFER = ''@glb.bin''"

definition ARRAY_BUFFER :: nat where "ARRAY_BUFFER = 34962"
definition ELEMENT_ARRAY_BUFFER :: nat where "ELEMENT_ARRAY_BUFFER = 34963"

text \<open>The glTF codes of \<open>GLTF.AccessorComponentType\<close>.\<close>

definition BYTE :: nat where "BYTE = 5120"
definition UNSIGNED_BYTE :: nat where "UNSIGNED_BYTE = 5121"
definition SHORT :: nat where "SHORT = 5122"
definition UNSIGNED_SHORT :: nat where "UNSIGNED_SHORT = 5123"
definition UNSIGNED_INT :: nat where "UNSIGNED_INT = 5125"
definition FLOAT :: nat where "FLOAT = 5126"

section \<open>DataView writes\<close>

text \<open>The \<open>n\<close> low bytes of an integer, least significant first.\<close>

definition le_bytes :: "nat \<Rightarrow> int \<Rightarrow> byte list" where
  "le_bytes n v = map (\<lambda>k. word_of_int (v div 256 ^ k)) [0..<n]"

text \<open>The integer conversion of the DataView setters: \<open>undefined\<close> becomes 0, a
  number is truncated towards zero (the reduction modulo the width is done by
  \<open>le_bytes\<close>).\<close>

definition ToInteger :: "jsvalue \<Rightarrow> int" where
  "ToInteger v = (case v of Undefined \<Rightarrow> 0
                  | Number r \<Rightarrow> (if 0 \<le> r then \<lfloor>r\<rfloor> else \<lceil>r\<rceil>))"

text \<open>The \<open>switch (componentType)\<close> of \<open>interleaveAccessors\<close>: the bytes
  the chosen setter stores, little-endian.\<close>

definition component_bytes :: "externals \<Rightarrow> nat \<Rightarrow> jsvalue \<Rightarrow> error + byte list" where
  "component_bytes ext componentType v =
    (if componentType = FLOAT then Inr (le_bytes 4 (uint (float32 ext v)))
     else if componentType = BYTE then Inr (le_bytes 1 (ToInteger v))
     else if componentType = SHORT then Inr (le_bytes 2 (ToInteger v))
     else if componentType = UNSIGNED_BYTE then Inr (le_bytes 1 (ToInteger v))
     else if componentType = UNSIGNED_SHORT then Inr (le_bytes 2 (ToInteger v))
     else if componentType = UNSIGNED_INT then Inr (le_bytes 4 (ToInteger v))
     else Inl (UnexpectedComponentType componentType))"

text \<open>A DataView setter stores its bytes at the offset, or raises when they do
  not fit into the buffer.\<close>

definition view_write :: "byte list \<Rightarrow> nat \<Rightarrow> byte list \<Rightarrow> error + byte list" where
  "view_write view off bs =
    (if off + length bs \<le> length view
     then Inr (take off view @ bs @ drop (off + length bs) view)
     else Inl RangeError)"

section \<open>Buffer-view packer\<close>

record unique_uri_generator =
  counter :: nat
  multiple :: bool
  gen_basename :: string

record buffer_state =
  json_accessors :: "accessor_def list"
  json_bufferViews :: "buffer_view_def list"
  json_buffers :: "buffer_def list"
  resources :: "(string \<times> byte list) list"
  accessorIndexMap :: "nat \<rightharpoonup> nat"
  bufferURIGenerator :: unique_uri_generator
  logged :: "string list"

record buffer_view_result =
  res_byteLength :: nat
  res_buffers :: "byte list list"

text \<open>First loop of \<open>concatAccessors\<close>: the accessor definitions, the padded
  blobs and the running length.\<close>

fun concat_defs :: "accessor list \<Rightarrow> byte list list \<Rightarrow> nat \<Rightarrow> buffer_state
    \<Rightarrow> byte list list \<times> nat \<times> buffer_state" where
  "concat_defs [] buffers byteLength s = (buffers, byteLength, s)"
| "concat_defs (a # as) buffers byteLength s =
    (let data = pad (buffer (getArray a));
         accessorDef = (createAccessorDef a)
           \<lparr>ad_bufferView := Some (length (json_bufferViews s)),
            ad_byteOffset := Some byteLength\<rparr>
     in concat_defs as (buffers @ [data]) (byteLength + length data)
          (s\<lparr>accessorIndexMap := (accessorIndexMap s)(acc_id a \<mapsto> length (json_accessors s)),
             json_accessors := json_accessors s @ [accessorDef]\<rparr>))"

definition concatAccessors :: "accessor list \<Rightarrow> nat \<Rightarrow> nat \<Rightarrow> nat option \<Rightarrow> buffer_state
    \<Rightarrow> buffer_view_result \<times> buffer_state" where
  "concatAccessors accessors bufferIndex bufferByteOffset bufferViewTarget s =
    (case concat_defs accessors [] 0 s of (buffers, byteLength, s1) \<Rightarrow>
      (let bufferViewData = concat buffers;
           bufferViewDef = \<lparr>bv_buffer = bufferIndex, bv_byteOffset = int bufferByteOffset,
             bv_byteLength = length bufferViewData, bv_byteStride = None,
             bv_target = (case bufferViewTarget of None \<Rightarrow> None
                          | Some t \<Rightarrow> if t \<noteq> 0 then Some t else None)\<rparr>
       in (\<lparr>res_byteLength = byteLength, res_buffers = buffers\<rparr>,
           s1\<lparr>json_bufferViews := json_bufferViews s1 @ [bufferViewDef]\<rparr>)))"

text \<open>First loop of \<open>interleaveAccessors\<close>: the accessor definitions and the
  stride.\<close>

fun interleave_defs :: "accessor list \<Rightarrow> nat \<Rightarrow> buffer_state \<Rightarrow> nat \<times> buffer_state" where
  "interleave_defs [] byteStride s = (byteStride, s)"
| "interleave_defs (a # as) byteStride s =
    (let accessorDef = (createAccessorDef a)
           \<lparr>ad_bufferView := Some (length (json_bufferViews s)),
            ad_byteOffset := Some byteStride\<rparr>
     in interleave_defs as (byteStride + padNumber (getElementSize a * getComponentSize a))
          (s\<lparr>accessorIndexMap := (accessorIndexMap s)(acc_id a \<mapsto> length (json_accessors s)),
             json_accessors := json_accessors s @ [accessorDef]\<rparr>))"

text \<open>The three nested write loops: over the components \<open>j\<close> of an element, over
  the accessors of a vertex (threading \<open>vertexByteOffset\<close>), over the vertices
  \<open>i\<close>.\<close>

definition write_component :: "externals \<Rightarrow> accessor \<Rightarrow> nat \<Rightarrow> nat \<Rightarrow> nat \<Rightarrow> nat
    \<Rightarrow> byte list \<Rightarrow> error + byte list" where
  "write_component ext a byteStride i vertexByteOffset j view =
    (let viewByteOffset = i * byteStride + vertexByteOffset + j * getComponentSize a;
         v = array_get (getArray a) (i * getElementSize a + j)
     in case component_bytes ext (getComponentType a) v of
          Inl e \<Rightarrow> Inl e
        | Inr bs \<Rightarrow> view_write view viewByteOffset bs)"

definition write_accessor :: "externals \<Rightarrow> nat \<Rightarrow> nat \<Rightarrow> accessor \<Rightarrow> byte list \<times> nat
    \<Rightarrow> error + byte list \<times> nat" where
  "write_accessor ext byteStride i a st =
    (case st of (view, vertexByteOffset) \<Rightarrow>
      (case foldE (write_component ext a byteStride i vertexByteOffset)
              [0..<getElementSize a] view of
         Inl e \<Rightarrow> Inl e
       | Inr view' \<Rightarrow>
           Inr (view', vertexByteOffset + padNumber (getElementSize a * getComponentSize a))))"

definition write_vertex :: "externals \<Rightarrow> accessor list \<Rightarrow> nat \<Rightarrow> nat \<Rightarrow> byte list
    \<Rightarrow> error + byte list" where
  "write_vertex ext accessors byteStride i view =
    (case foldE (write_accessor ext byteStride i) accessors (view, 0) of
       Inl e \<Rightarrow> Inl e
     | Inr (view', _) \<Rightarrow> Inr view')"

definition interleaveAccessors :: "externals \<Rightarrow> accessor list \<Rightarrow> nat \<Rightarrow> nat \<Rightarrow> buffer_state
    \<Rightarrow> error + buffer_view_result \<times> buffer_state" where
  "interleaveAccessors ext accessors bufferIndex bufferByteOffset s =
    (case accessors of
       [] \<Rightarrow> Inl TypeError
     | a0 # _ \<Rightarrow>
        (let vertexCount = getCount a0 in
         case interleave_defs accessors 0 s of (byteStride, s1) \<Rightarrow>
          (let byteLength = vertexCount * byteStride;
               buffer = replicate byteLength 0
           in case foldE (write_vertex ext accessors byteStride) [0..<vertexCount] buffer of
                Inl e \<Rightarrow> Inl e
              | Inr view \<Rightarrow>
                 (let bufferViewDef = \<lparr>bv_buffer = bufferIndex,
                        bv_byteOffset = int bufferByteOffset, bv_byteLength = byteLength,
                        bv_byteStride = Some byteStride, bv_target = Some ARRAY_BUFFER\<rparr>
                  in Inr (\<lparr>res_byteLength = byteLength, res_buffers = [view]\<rparr>,
                          s1\<lparr>json_bufferViews := json_bufferViews s1 @ [bufferViewDef]\<rparr>)))))"


section \<open>URI generator\<close>

fun digit_char :: "nat \<Rightarrow> char" where
  "digit_char n = char_of (48 + n)"

fun show_nat :: "nat \<Rightarrow> string" where
  "show_nat n = (if n < 10 then [digit_char n]
                 else show_nat (n div 10) @ [digit_char (n mod 10)])"

declare show_nat.simps [simp del]

definition createURI :: "unique_uri_generator \<Rightarrow> string \<Rightarrow> string
    \<Rightarrow> string \<times> unique_uri_generator" where
  "createURI g objectURI extension =
    (if objectURI \<noteq> [] then (objectURI, g)
     else if \<not> multiple g then (gen_basename g @ ''.'' @ extension, g)
     else (gen_basename g @ ''_'' @ show_nat (counter g) @ ''.'' @ extension,
           g\<lparr>counter := counter g + 1\<rparr>))"

section \<open>Textures and images\<close>

record image_state =
  ist_images :: "image_def list"
  ist_bufferViews :: "buffer_view_def list"
  ist_imageData :: "byte list list"
  ist_resources :: "(string \<times> byte list) list"
  ist_imageIndexMap :: "nat \<rightharpoonup> nat"
  imageURIGenerator :: unique_uri_generator

text \<open>The callback of \<open>root.listTextures().map\<close>.\<close>

definition write_image :: "writer_options \<Rightarrow> texture \<Rightarrow> nat \<Rightarrow> image_state \<Rightarrow> image_state" where
  "write_image options t textureIndex s =
    (let imageDef = \<lparr>img_prop = createPropertyDef t,
           img_mimeType = (if getMimeType t \<noteq> [] then Some (getMimeType t) else None),
           img_bufferView = None, img_uri = None\<rparr>
     in if isGLB options \<or> embedded options
        then s\<lparr>ist_imageData := ist_imageData s @ [getImage t],
               ist_bufferViews := ist_bufferViews s @
                 [\<lparr>bv_buffer = 0, bv_byteOffset = - 1, bv_byteLength = length (getImage t),
                   bv_byteStride = None, bv_target = None\<rparr>],
               ist_images := ist_images s @
                 [imageDef\<lparr>img_bufferView := Some (length (ist_bufferViews s))\<rparr>],
               ist_imageIndexMap := (ist_imageIndexMap s)(tex_id t \<mapsto> textureIndex)\<rparr>
        else (let extension = (if getMimeType t = ''image/png'' then ''png'' else ''jpeg'')
              in case createURI (imageURIGenerator s) (tex_getURI t) extension of (uri, g) \<Rightarrow>
                s\<lparr>ist_resources := AList.update uri (getImage t) (ist_resources s),
                  ist_images := ist_images s @ [imageDef\<lparr>img_uri := Some uri\<rparr>],
                  imageURIGenerator := g,
                  ist_imageIndexMap := (ist_imageIndexMap s)(tex_id t \<mapsto> textureIndex)\<rparr>))"

fun write_images :: "writer_options \<Rightarrow> texture list \<Rightarrow> nat \<Rightarrow> image_state \<Rightarrow> image_state" where
  "write_images options [] textureIndex s = s"
| "write_images options (t # ts) textureIndex s =
    write_images options ts (Suc textureIndex) (write_image options t textureIndex s)"

section \<open>Accessor partitioner\<close>

text \<open>The pre-processing loop over \<open>doc.getGraph().getLinks()\<close>.\<close>

fun gather_links :: "link list \<Rightarrow> (nat \<rightharpoonup> link list) \<Rightarrow> (nat \<rightharpoonup> link list)" where
  "gather_links [] accessorLinks = accessorLinks"
| "gather_links (l # ls) accessorLinks =
    (if getParent l = RootRef then gather_links ls accessorLinks
     else (case getChild l of
             AccessorRef a \<Rightarrow>
               (let uses = (case accessorLinks a of None \<Rightarrow> [] | Some u \<Rightarrow> u)
                in gather_links ls (accessorLinks(a \<mapsto> uses @ [l])))
           | _ \<Rightarrow> gather_links ls accessorLinks))"

record usage =
  attributeAccessors :: "(property_ref \<times> accessor list) list"
  indexAccessors :: "accessor list"
  otherAccessors :: "accessor list"

text \<open>\<open>Set.add\<close>: insertion order, one entry per accessor object.\<close>

definition set_add :: "accessor \<Rightarrow> accessor list \<Rightarrow> accessor list" where
  "set_add a xs = (if acc_id a \<in> set (map acc_id xs) then xs else xs @ [a])"

fun link_flags :: "link list \<Rightarrow> bool \<times> bool \<times> bool \<Rightarrow> bool \<times> bool \<times> bool" where
  "link_flags [] flags = flags"
| "link_flags (l # ls) (isAttribute, isIndex, isOther) =
    (if kind l = AttributeLink then link_flags ls (True, isIndex, isOther)
     else if kind l = IndexLink then link_flags ls (isAttribute, True, isOther)
     else link_flags ls (isAttribute, isIndex, True))"

definition accessorRefs_of :: "(nat \<rightharpoonup> link list) \<Rightarrow> accessor \<Rightarrow> link list" where
  "accessorRefs_of accessorLinks a =
    (case accessorLinks (acc_id a) of None \<Rightarrow> [] | Some ls \<Rightarrow> ls)"

text \<open>Body of the loop "Categorize accessors by use".\<close>

definition categorize :: "(nat \<rightharpoonup> link list) \<Rightarrow> buffer_parent \<Rightarrow> usage \<Rightarrow> error + usage" where
  "categorize accessorLinks parent u =
    (case parent of
       ParentRoot \<Rightarrow> Inl (UnimplementedBufferReference RootRef)
     | ParentOther n \<Rightarrow> Inl (UnimplementedBufferReference (OtherRef n))
     | ParentAccessor a \<Rightarrow>
        (let accessorRefs = accessorRefs_of accessorLinks a in
         case link_flags accessorRefs (False, False, False) of
          (isAttribute, isIndex, isOther0) \<Rightarrow>
           (let isOther = (if \<not> isAttribute \<and> \<not> isIndex \<and> \<not> isOther0 then True else isOther0)
            in if isAttribute \<and> \<not> isIndex \<and> \<not> isOther then
                 (case accessorRefs of
                    [] \<Rightarrow> Inl TypeError
                  | l # _ \<Rightarrow>
                     (let primitive = getParent l;
                          primitiveAccessors =
                            (case map_of (attributeAccessors u) primitive of
                               None \<Rightarrow> [] | Some xs \<Rightarrow> xs)
                      in Inr (u\<lparr>attributeAccessors :=
                            AList.update primitive (set_add a primitiveAccessors)
                              (attributeAccessors u)\<rparr>)))
               else if isIndex \<and> \<not> isAttribute \<and> \<not> isOther then
                 Inr (u\<lparr>indexAccessors := set_add a (indexAccessors u)\<rparr>)
               else if isOther \<and> \<not> isAttribute \<and> \<not> isIndex then
                 Inr (u\<lparr>otherAccessors := set_add a (otherAccessors u)\<rparr>)
               else Inl AttributeOrIndexAccessorsMustBeUsedOnlyForThatPurpose)))"

definition bufferParents :: "buffer \<Rightarrow> buffer_parent list" where
  "bufferParents b =
    filter (\<lambda>p. case p of ParentRoot \<Rightarrow> False | _ \<Rightarrow> True) (listParents b)"

definition empty_usage :: usage where
  "empty_usage = \<lparr>attributeAccessors = [], indexAccessors = [], otherAccessors = []\<rparr>"

section \<open>Per-buffer pipeline\<close>

text \<open>The running \<open>buffers\<close> and \<open>bufferByteLength\<close> of one buffer, with the
  writer's tables.\<close>

type_synonym packing = "byte list list \<times> nat \<times> buffer_state"

definition pack_concat :: "accessor list \<Rightarrow> nat \<Rightarrow> nat option \<Rightarrow> packing \<Rightarrow> packing" where
  "pack_concat accessors bufferIndex target p =
    (case p of (buffers, bufferByteLength, s) \<Rightarrow>
      if accessors \<noteq> [] then
        (case concatAccessors accessors bufferIndex bufferByteLength target s of
           (r, s') \<Rightarrow> (buffers @ res_buffers r, bufferByteLength + res_byteLength r, s'))
      else p)"

definition pack_primitive :: "externals \<Rightarrow> nat \<Rightarrow> accessor list \<Rightarrow> packing \<Rightarrow> error + packing" where
  "pack_primitive ext bufferIndex primitiveAccessors p =
    (case p of (buffers, bufferByteLength, s) \<Rightarrow>
      if primitiveAccessors \<noteq> [] then
        (case interleaveAccessors ext primitiveAccessors bufferIndex bufferByteLength s of
           Inl e \<Rightarrow> Inl e
         | Inr (r, s') \<Rightarrow>
             Inr (buffers @ res_buffers r, bufferByteLength + res_byteLength r, s'))
      else Inr p)"

definition pack_accessors :: "externals \<Rightarrow> usage \<Rightarrow> nat \<Rightarrow> buffer_state \<Rightarrow> error + packing" where
  "pack_accessors ext u bufferIndex s =
    (case foldE (pack_primitive ext bufferIndex) (map snd (attributeAccessors u))
            (pack_concat (indexAccessors u) bufferIndex (Some ELEMENT_ARRAY_BUFFER) ([], 0, s)) of
       Inl e \<Rightarrow> Inl e
     | Inr p \<Rightarrow> Inr (pack_concat (otherAccessors u) bufferIndex None p))"

text \<open>Body of the loop over \<open>imageData\<close>.\<close>

definition append_image :: "image_def list \<Rightarrow> byte list list \<Rightarrow> nat \<Rightarrow> packing \<Rightarrow> error + packing" where
  "append_image images imageData i p =
    (case p of (buffers, bufferByteLength, s) \<Rightarrow>
      if i < length images \<and> i < length imageData then
        (case img_bufferView (images ! i) of
           None \<Rightarrow> Inl TypeError
         | Some k \<Rightarrow>
            if k < length (json_bufferViews s) then
              Inr (buffers @ [imageData ! i], bufferByteLength + length (imageData ! i),
                   s\<lparr>json_bufferViews := (json_bufferViews s)
                       [k := (json_bufferViews s ! k)\<lparr>bv_byteOffset := int bufferByteLength\<rparr>]\<rparr>)
            else Inl TypeError)
      else Inl TypeError)"

definition empty_buffer_warning :: "externals \<Rightarrow> buffer \<Rightarrow> string" where
  "empty_buffer_warning ext b =
    NAME ext @ '': Skipping empty buffer, \"'' @ getName b @ ''\".''"

text \<open>"Assign buffer URI" and "Write buffer views to buffer".\<close>

definition emit_buffer :: "externals \<Rightarrow> writer_options \<Rightarrow> buffer \<Rightarrow> packing \<Rightarrow> buffer_state" where
  "emit_buffer ext options b p =
    (case p of (buffers, bufferByteLength, s) \<Rightarrow>
      (case (if isGLB options then (GLB_BUFFER, bufferURIGenerator s, None)
             else (case createURI (bufferURIGenerator s) (buf_getURI b) ''bin'' of
                     (uri, g) \<Rightarrow> (uri, g, Some uri))) of
         (uri, g, defURI) \<Rightarrow>
          (if embedded options then
             s\<lparr>bufferURIGenerator := g,
               json_buffers := json_buffers s @
                 [\<lparr>bd_prop = createPropertyDef b,
                   bd_uri = Some (''data:application/octet-stream;base64,''
                                  @ encodeBufferToBase64 ext (concat buffers)),
                   bd_byteLength = bufferByteLength\<rparr>]\<rparr>
           else
             s\<lparr>bufferURIGenerator := g,
               resources := AList.update uri (concat buffers) (resources s),
               json_buffers := json_buffers s @
                 [\<lparr>bd_prop = createPropertyDef b, bd_uri = defURI,
                   bd_byteLength = bufferByteLength\<rparr>]\<rparr>)))"

text \<open>The callback of \<open>root.listBuffers().forEach\<close>, first half: the accessors
  are categorized and packed, then the recorded image bytes are appended.\<close>

definition pack_buffer :: "externals \<Rightarrow> (nat \<rightharpoonup> link list) \<Rightarrow> image_def list
    \<Rightarrow> byte list list \<Rightarrow> buffer \<Rightarrow> buffer_state \<Rightarrow> error + packing" where
  "pack_buffer ext accessorLinks images imageData b s =
    (case foldE (categorize accessorLinks) (bufferParents b) empty_usage of
       Inl e \<Rightarrow> Inl e
     | Inr u \<Rightarrow>
        (case pack_accessors ext u (length (json_buffers s)) s of
           Inl e \<Rightarrow> Inl e
         | Inr p \<Rightarrow> foldE (append_image images imageData) [0..<length imageData] p))"

text \<open>Second half: an empty buffer is skipped with a warning, any other is given
  its URI and pushed.\<close>

definition write_buffer :: "externals \<Rightarrow> writer_options \<Rightarrow> (nat \<rightharpoonup> link list)
    \<Rightarrow> image_def list \<Rightarrow> byte list list \<Rightarrow> buffer \<Rightarrow> buffer_state \<Rightarrow> error + buffer_state" where
  "write_buffer ext options accessorLinks images imageData b s =
    (case pack_buffer ext accessorLinks images imageData b s of
       Inl e \<Rightarrow> Inl e
     | Inr (buffers, bufferByteLength, s') \<Rightarrow>
        if bufferByteLength = 0
        then Inr (s'\<lparr>logged := logged s' @ [empty_buffer_warning ext b]\<rparr>)
        else Inr (emit_buffer ext options b (buffers, bufferByteLength, s')))"

section \<open>Texture and sampler deduplication\<close>

record texture_info =
  getTexCoord :: nat

record texture_sampler =
  getMagFilter :: "nat option"
  getMinFilter :: "nat option"
  getWrapS :: nat
  getWrapT :: nat

text \<open>One material texture slot: the texture (by identity), its info and its
  sampler.\<close>

record texture_slot =
  slot_texture :: nat
  slot_info :: texture_info
  slot_sampler :: texture_sampler

text \<open>\<open>JSON.stringify\<close> of a sampler or texture definition: the fields that are
  not \<open>undefined\<close>, in insertion order, each with its number.\<close>

type_synonym json_key = "(string \<times> nat) list"

definition stringify_field :: "string \<Rightarrow> nat option \<Rightarrow> json_key" where
  "stringify_field k v = (case v of None \<Rightarrow> [] | Some n \<Rightarrow> [(k, n)])"

definition stringify_sampler :: "sampler_def \<Rightarrow> json_key" where
  "stringify_sampler d =
    stringify_field ''magFilter'' (sd_magFilter d) @ stringify_field ''minFilter'' (sd_minFilter d)
    @ [(''wrapS'', sd_wrapS d), (''wrapT'', sd_wrapT d)]"

definition stringify_texture :: "texture_def \<Rightarrow> json_key" where
  "stringify_texture d =
    stringify_field ''source'' (td_source d) @ stringify_field ''sampler'' (td_sampler d)"

text \<open>\<open>x || undefined\<close> on a filter that may be null or 0.\<close>

definition or_undefined :: "nat option \<Rightarrow> nat option" where
  "or_undefined v = (case v of None \<Rightarrow> None | Some n \<Rightarrow> if n = 0 then None else Some n)"

record texture_state =
  json_samplers :: "sampler_def list"
  json_textures :: "texture_def list"
  samplerIndexMap :: "json_key \<rightharpoonup> nat"
  textureIndexMap :: "json_key \<rightharpoonup> nat"

definition createTextureInfoDef :: "(nat \<rightharpoonup> nat) \<Rightarrow> texture_slot \<Rightarrow> texture_state
    \<Rightarrow> texture_info_def \<times> texture_state" where
  "createTextureInfoDef imageIndexMap slot s =
    (let samplerDef = \<lparr>sd_magFilter = or_undefined (getMagFilter (slot_sampler slot)),
                       sd_minFilter = or_undefined (getMinFilter (slot_sampler slot)),
                       sd_wrapS = getWrapS (slot_sampler slot),
                       sd_wrapT = getWrapT (slot_sampler slot)\<rparr>;
         samplerKey = stringify_sampler samplerDef;
         s1 = (if samplerIndexMap s samplerKey = None
               then s\<lparr>samplerIndexMap := (samplerIndexMap s)(samplerKey \<mapsto> length (json_samplers s)),
                      json_samplers := json_samplers s @ [samplerDef]\<rparr>
               else s);
         textureDef = \<lparr>td_source = imageIndexMap (slot_texture slot),
                       td_sampler = samplerIndexMap s1 samplerKey\<rparr>;
         textureKey = stringify_texture textureDef;
         s2 = (if textureIndexMap s1 textureKey = None
               then s1\<lparr>textureIndexMap := (textureIndexMap s1)(textureKey \<mapsto> length (json_textures s1)),
                       json_textures := json_textures s1 @ [textureDef]\<rparr>
               else s1)
     in (\<lparr>ti_index = textureIndexMap s2 textureKey,
          ti_texCoord = getTexCoord (slot_info slot),
          ti_scale = None, ti_strength = None\<rparr>, s2))"

section \<open>Materials\<close>

record material = property +
  mat_id :: nat
  getAlphaMode :: string
  getAlphaCutoff :: real
  getDoubleSided :: bool
  getBaseColorFactor :: "real list"
  getEmissiveFactor :: "real list"
  getRoughnessFactor :: real
  getMetallicFactor :: real
  getBaseColorTexture :: "texture_slot option"
  getEmissiveTexture :: "texture_slot option"
  getNormalTexture :: "texture_slot option"
  getNormalScale :: real
  getOcclusionTexture :: "texture_slot option"
  getOcclusionStrength :: real
  getMetallicRoughnessTexture :: "texture_slot option"

record pbr_def =
  baseColorFactor :: "real list"
  roughnessFactor :: real
  metallicFactor :: real
  baseColorTexture :: "texture_info_def option"
  metallicRoughnessTexture :: "texture_info_def option"

record material_def =
  md_prop :: property_def
  md_alphaMode :: string
  md_alphaCutoff :: "real option"
  md_doubleSided :: bool
  md_pbrMetallicRoughness :: pbr_def
  md_emissiveFactor :: "real list"
  md_emissiveTexture :: "texture_info_def option"
  md_normalTexture :: "texture_info_def option"
  md_occlusionTexture :: "texture_info_def option"

text \<open>A texture slot that is set yields a texture-info definition.\<close>

definition slot_def :: "(nat \<rightharpoonup> nat) \<Rightarrow> texture_slot option \<Rightarrow> texture_state
    \<Rightarrow> texture_info_def option \<times> texture_state" where
  "slot_def imageIndexMap slot s =
    (case slot of
       None \<Rightarrow> (None, s)
     | Some sl \<Rightarrow> (case createTextureInfoDef imageIndexMap sl s of (d, s') \<Rightarrow> (Some d, s')))"

text \<open>The callback of \<open>root.listMaterials().map\<close>.\<close>

definition write_material :: "(nat \<rightharpoonup> nat) \<Rightarrow> material \<Rightarrow> texture_state
    \<Rightarrow> material_def \<times> texture_state" where
  "write_material imageIndexMap m s =
    (case slot_def imageIndexMap (getBaseColorTexture m) s of (baseColor, s1) \<Rightarrow>
     case slot_def imageIndexMap (getEmissiveTexture m) s1 of (emissive, s2) \<Rightarrow>
     case slot_def imageIndexMap (getNormalTexture m) s2 of (normal, s3) \<Rightarrow>
     case slot_def imageIndexMap (getOcclusionTexture m) s3 of (occlusion, s4) \<Rightarrow>
     case slot_def imageIndexMap (getMetallicRoughnessTexture m) s4 of (metalRough, s5) \<Rightarrow>
      (\<lparr>md_prop = createPropertyDef m,
        md_alphaMode = getAlphaMode m,
        md_alphaCutoff = (if getAlphaMode m = ''MASK'' then Some (getAlphaCutoff m) else None),
        md_doubleSided = getDoubleSided m,
        md_pbrMetallicRoughness =
          \<lparr>baseColorFactor = getBaseColorFactor m,
           roughnessFactor = getRoughnessFactor m,
           metallicFactor = getMetallicFactor m,
           baseColorTexture = baseColor,
           metallicRoughnessTexture = metalRough\<rparr>,
        md_emissiveFactor = getEmissiveFactor m,
        md_emissiveTexture = emissive,
        md_normalTexture =
          map_option (\<lambda>d. if getNormalScale m \<noteq> 1 then d\<lparr>ti_scale := Some (getNormalScale m)\<rparr> else d)
            normal,
        md_occlusionTexture =
          map_option (\<lambda>d. if getOcclusionStrength m \<noteq> 1
                           then d\<lparr>ti_strength := Some (getOcclusionStrength m)\<rparr> else d)
            occlusion\<rparr>, s5))"

fun write_materials :: "(nat \<rightharpoonup> nat) \<Rightarrow> material list \<Rightarrow> texture_state
    \<Rightarrow> material_def list \<times> texture_state" where
  "write_materials imageIndexMap [] s = ([], s)"
| "write_materials imageIndexMap (m # ms) s =
    (case write_material imageIndexMap m s of (d, s') \<Rightarrow>
     case write_materials imageIndexMap ms s' of (ds, s'') \<Rightarrow> (d # ds, s''))"

text \<open>\<open>materialIndexMap\<close> and the other tables filled by a \<open>map\<close> callback with
  \<open>table.set(property, index)\<close>: a later entry for the same property wins.\<close>

fun index_table :: "nat list \<Rightarrow> nat \<Rightarrow> (nat \<rightharpoonup> nat) \<Rightarrow> (nat \<rightharpoonup> nat)" where
  "index_table [] i m = m"
| "index_table (k # ks) i m = index_table ks (Suc i) (m(k \<mapsto> i))"

text \<open>\<open>table.get(x)\<close> where \<open>x\<close> may be null.\<close>

definition get_opt :: "(nat \<rightharpoonup> nat) \<Rightarrow> nat option \<Rightarrow> nat option" where
  "get_opt m k = (case k of None \<Rightarrow> None | Some x \<Rightarrow> m x)"

section \<open>Meshes, cameras, nodes, skins, animations, scenes\<close>

record primitive_target = property +
  target_attributes :: "(string \<times> nat) list"

record primitive =
  getMaterial :: "nat option"
  getMode :: nat
  getIndices :: "nat option"
  prim_attributes :: "(string \<times> nat) list"
  listTargets :: "primitive_target list"

record mesh = property +
  mesh_id :: nat
  listPrimitives :: "primitive list"
  mesh_getWeights :: "real list"

record primitive_def =
  pd_attributes :: "(string \<times> nat option) list"
  pd_material :: "nat option"
  pd_mode :: nat
  pd_indices :: "nat option"
  pd_targets :: "(string \<times> nat option) list list option"

record mesh_def =
  me_prop :: property_def
  me_primitives :: "primitive_def list"
  me_weights :: "real list option"

text \<open>The loops \<open>def[semantic] = accessorIndex.get(...)\<close>.\<close>

definition semantics_def :: "(nat \<rightharpoonup> nat) \<Rightarrow> (string \<times> nat) list \<Rightarrow> (string \<times> nat option) list" where
  "semantics_def accessorIndex attrs =
    fold (\<lambda>(semantic, a) def. AList.update semantic (accessorIndex a) def) attrs []"

definition write_primitive :: "(nat \<rightharpoonup> nat) \<Rightarrow> (nat \<rightharpoonup> nat) \<Rightarrow> primitive \<Rightarrow> primitive_def" where
  "write_primitive accessorIndex materialIndexMap p =
    \<lparr>pd_attributes = semantics_def accessorIndex (prim_attributes p),
     pd_material = get_opt materialIndexMap (getMaterial p),
     pd_mode = getMode p,
     pd_indices = get_opt accessorIndex (getIndices p),
     pd_targets = (if listTargets p = [] then None
                   else Some (map (\<lambda>t. semantics_def accessorIndex (target_attributes t))
                                (listTargets p)))\<rparr>"

text \<open>\<open>targetNames\<close>: the names of the targets of the first primitive that has
  targets.\<close>

fun target_names :: "primitive list \<Rightarrow> string list option" where
  "target_names [] = None"
| "target_names (p # ps) =
    (if listTargets p \<noteq> [] then Some (map getName (listTargets p)) else target_names ps)"

definition write_mesh :: "(nat \<rightharpoonup> nat) \<Rightarrow> (nat \<rightharpoonup> nat) \<Rightarrow> mesh \<Rightarrow> mesh_def" where
  "write_mesh accessorIndex materialIndexMap m =
    (let meshDef = createPropertyDef m;
         meshDef' = (case target_names (listPrimitives m) of
                       None \<Rightarrow> meshDef
                     | Some targetNames \<Rightarrow>
                         meshDef\<lparr>def_extras := Some (AList.update ''targetNames''
                           (JArr (map JStr targetNames))
                           (case def_extras meshDef of None \<Rightarrow> [] | Some e \<Rightarrow> e))\<rparr>)
     in \<lparr>me_prop = meshDef',
         me_primitives = map (write_primitive accessorIndex materialIndexMap) (listPrimitives m),
         me_weights = (if mesh_getWeights m \<noteq> [] then Some (mesh_getWeights m) else None)\<rparr>)"

record camera = property +
  cam_id :: nat
  cam_getType :: string
  getZNear :: real
  getZFar :: real
  getYFov :: real
  getAspectRatio :: real
  getXMag :: real
  getYMag :: real

record perspective_def =
  p_znear :: real
  p_zfar :: real
  yfov :: real
  aspectRatio :: real

record orthographic_def =
  o_znear :: real
  o_zfar :: real
  xmag :: real
  ymag :: real

record camera_def =
  cd_prop :: property_def
  cd_type :: string
  cd_perspective :: "perspective_def option"
  cd_orthographic :: "orthographic_def option"

definition write_camera :: "camera \<Rightarrow> camera_def" where
  "write_camera c =
    (if cam_getType c = ''perspective''
     then \<lparr>cd_prop = createPropertyDef c, cd_type = cam_getType c,
           cd_perspective = Some \<lparr>p_znear = getZNear c, p_zfar = getZFar c,
                                  yfov = getYFov c, aspectRatio = getAspectRatio c\<rparr>,
           cd_orthographic = None\<rparr>
     else \<lparr>cd_prop = createPropertyDef c, cd_type = cam_getType c,
           cd_perspective = None,
           cd_orthographic = Some \<lparr>o_znear = getZNear c, o_zfar = getZFar c,
                                   xmag = getXMag c, ymag = getYMag c\<rparr>\<rparr>)"

record node = property +
  node_id :: nat
  getTranslation :: "real list"
  getRotation :: "real list"
  getScale :: "real list"
  node_getWeights :: "real list"
  getMesh :: "nat option"
  getCamera :: "nat option"
  getSkin :: "nat option"
  listChildren :: "nat list"

record node_def =
  nd_prop :: property_def
  nd_translation :: "real list"
  nd_rotation :: "real list"
  nd_scale :: "real list"
  nd_weights :: "real list option"
  nd_mesh :: "nat option"
  nd_camera :: "nat option"
  nd_skin :: "nat option"
  nd_children :: "nat option list option"

text \<open>First pass over the nodes.\<close>

definition write_node :: "node \<Rightarrow> node_def" where
  "write_node n =
    \<lparr>nd_prop = createPropertyDef n, nd_translation = getTranslation n,
     nd_rotation = getRotation n, nd_scale = getScale n,
     nd_weights = (if node_getWeights n \<noteq> [] then Some (node_getWeights n) else None),
     nd_mesh = None, nd_camera = None, nd_skin = None, nd_children = None\<rparr>"

text \<open>Second pass, "Node attachments": \<open>json.nodes[index]\<close> is completed in
  place.\<close>

definition attach_node :: "(nat \<rightharpoonup> nat) \<Rightarrow> (nat \<rightharpoonup> nat) \<Rightarrow> (nat \<rightharpoonup> nat) \<Rightarrow> (nat \<rightharpoonup> nat)
    \<Rightarrow> node \<Rightarrow> node_def \<Rightarrow> node_def" where
  "attach_node meshIndexMap cameraIndexMap skinIndexMap nodeIndexMap n nodeDef =
    nodeDef\<lparr>nd_mesh := get_opt meshIndexMap (getMesh n),
            nd_camera := get_opt cameraIndexMap (getCamera n),
            nd_skin := get_opt skinIndexMap (getSkin n),
            nd_children := (if length (listChildren n) > 0
                            then Some (map nodeIndexMap (listChildren n)) else None)\<rparr>"

record skin = property +
  skin_id :: nat
  getInverseBindMatrices :: "nat option"
  getSkeleton :: "nat option"
  listJoints :: "nat list"

record skin_def =
  sk_prop :: property_def
  sk_inverseBindMatrices :: "nat option"
  sk_skeleton :: "nat option"
  sk_joints :: "nat option list"

definition write_skin :: "(nat \<rightharpoonup> nat) \<Rightarrow> (nat \<rightharpoonup> nat) \<Rightarrow> skin \<Rightarrow> skin_def" where
  "write_skin accessorIndex nodeIndexMap k =
    \<lparr>sk_prop = createPropertyDef k,
     sk_inverseBindMatrices = get_opt accessorIndex (getInverseBindMatrices k),
     sk_skeleton = get_opt nodeIndexMap (getSkeleton k),
     sk_joints = map nodeIndexMap (listJoints k)\<rparr>"

record animation_sampler = property +
  as_id :: nat
  getInput :: "nat option"
  getOutput :: "nat option"
  getInterpolation :: string

record animation_channel = property +
  getSampler :: "nat option"
  getTargetNode :: "nat option"
  getTargetPath :: string

record animation = property +
  listSamplers :: "animation_sampler list"
  listChannels :: "animation_channel list"

record animation_sampler_def =
  asd_prop :: property_def
  asd_input :: "nat option"
  asd_output :: "nat option"
  asd_interpolation :: string

record animation_channel_def =
  acd_prop :: property_def
  acd_sampler :: "nat option"
  acd_target_node :: "nat option"
  acd_target_path :: string

record animation_def =
  an_prop :: property_def
  an_samplers :: "animation_sampler_def list"
  an_channels :: "animation_channel_def list"

definition write_animation :: "(nat \<rightharpoonup> nat) \<Rightarrow> (nat \<rightharpoonup> nat) \<Rightarrow> animation \<Rightarrow> animation_def" where
  "write_animation accessorIndex nodeIndexMap a =
    (let samplerIndex = index_table (map as_id (listSamplers a)) 0 Map.empty
     in \<lparr>an_prop = createPropertyDef a,
         an_samplers = map (\<lambda>sampler.
             \<lparr>asd_prop = createPropertyDef sampler,
              asd_input = get_opt accessorIndex (getInput sampler),
              asd_output = get_opt accessorIndex (getOutput sampler),
              asd_interpolation = getInterpolation sampler\<rparr>) (listSamplers a),
         an_channels = map (\<lambda>channel.
             \<lparr>acd_prop = createPropertyDef channel,
              acd_sampler = get_opt samplerIndex (getSampler channel),
              acd_target_node = get_opt nodeIndexMap (getTargetNode channel),
              acd_target_path = getTargetPath channel\<rparr>) (listChannels a)\<rparr>)"

record scene = property +
  scene_listNodes :: "nat list"

record scene_def =
  sc_prop :: property_def
  sc_nodes :: "nat option list"

definition write_scene :: "(nat \<rightharpoonup> nat) \<Rightarrow> scene \<Rightarrow> scene_def" where
  "write_scene nodeIndexMap sc =
    \<lparr>sc_prop = createPropertyDef sc, sc_nodes = map nodeIndexMap (scene_listNodes sc)\<rparr>"


section \<open>Post-processor\<close>

text \<open>A value of the root JSON object: one of the definition arrays, or any other
  JSON value (the asset).\<close>

datatype root_value =
    Value json
  | Accessors "accessor_def list"
  | BufferViews "buffer_view_def list"
  | Samplers "sampler_def list"
  | Textures "texture_def list"
  | Images "image_def list"
  | Buffers "buffer_def list"
  | Materials "material_def list"
  | Meshes "mesh_def list"
  | Cameras "camera_def list"
  | Nodes "node_def list"
  | Skins "skin_def list"
  | Animations "animation_def list"
  | Scenes "scene_def list"

type_synonym root_object = "(string \<times> root_value) list"

text \<open>\<open>Array.isArray(value) && value.length === 0\<close>.\<close>

fun isEmptyArray :: "root_value \<Rightarrow> bool" where
  "isEmptyArray (Value j) = (case j of JArr xs \<Rightarrow> xs = [] | _ \<Rightarrow> False)"
| "isEmptyArray (Accessors xs) = (xs = [])"
| "isEmptyArray (BufferViews xs) = (xs = [])"
| "isEmptyArray (Samplers xs) = (xs = [])"
| "isEmptyArray (Textures xs) = (xs = [])"
| "isEmptyArray (Images xs) = (xs = [])"
| "isEmptyArray (Buffers xs) = (xs = [])"
| "isEmptyArray (Materials xs) = (xs = [])"
| "isEmptyArray (Meshes xs) = (xs = [])"
| "isEmptyArray (Cameras xs) = (xs = [])"
| "isEmptyArray (Nodes xs) = (xs = [])"
| "isEmptyArray (Skins xs) = (xs = [])"
| "isEmptyArray (Animations xs) = (xs = [])"
| "isEmptyArray (Scenes xs) = (xs = [])"

text \<open>\<open>value === null || value === ''\<close>.\<close>

fun isNullOrEmptyString :: "root_value \<Rightarrow> bool" where
  "isNullOrEmptyString (Value j) = (j = JNull \<or> j = JStr [])"
| "isNullOrEmptyString _ = False"

text \<open>The property key JavaScript derives from a value that is null or a string,
  as in \<open>delete object[value]\<close>.\<close>

fun property_key :: "root_value \<Rightarrow> string" where
  "property_key (Value (JStr s)) = s"
| "property_key _ = ''null''"

text \<open>First loop of \<open>clean\<close>: what is pushed onto \<open>unused\<close>.\<close>

fun unused_of :: "root_object \<Rightarrow> string list" where
  "unused_of [] = []"
| "unused_of ((key, v) # rest) =
    (if isEmptyArray v then key # unused_of rest
     else if isNullOrEmptyString v then property_key v # unused_of rest
     else unused_of rest)"

definition clean :: "root_object \<Rightarrow> root_object" where
  "clean object = fold AList.delete (unused_of object) object"

section \<open>The writer\<close>

record document =
  getAsset :: json
  getLinks :: "link list"
  listBuffers :: "buffer list"
  listTextures :: "texture list"
  listMaterials :: "material list"
  listMeshes :: "mesh list"
  listCameras :: "camera list"
  listNodes :: "node list"
  listSkins :: "skin list"
  listAnimations :: "animation list"
  listScenes :: "scene list"

record native_document =
  json :: root_object
  nd_resources :: "(string \<times> byte list) list"

definition write_textures :: "document \<Rightarrow> writer_options \<Rightarrow> image_state" where
  "write_textures doc options =
    write_images options (listTextures doc) 0
      \<lparr>ist_images = [], ist_bufferViews = [], ist_imageData = [], ist_resources = [],
       ist_imageIndexMap = Map.empty,
       imageURIGenerator = \<lparr>counter = 1, multiple = (length (listTextures doc) > 1),
                             gen_basename = basename options\<rparr>\<rparr>"

text \<open>The tables of the writer when the loop over the buffers starts.\<close>

definition initial_buffer_state :: "document \<Rightarrow> writer_options \<Rightarrow> buffer_state" where
  "initial_buffer_state doc options =
    \<lparr>json_accessors = [], json_bufferViews = ist_bufferViews (write_textures doc options),
     json_buffers = [], resources = ist_resources (write_textures doc options),
     accessorIndexMap = Map.empty,
     bufferURIGenerator = \<lparr>counter = 1, multiple = (length (listBuffers doc) > 1),
                            gen_basename = basename options\<rparr>,
     logged = []\<rparr>"

text \<open>The \<open>forEach\<close> callback with what it closes over.\<close>

definition buffer_step :: "externals \<Rightarrow> document \<Rightarrow> writer_options \<Rightarrow> buffer \<Rightarrow> buffer_state
    \<Rightarrow> error + buffer_state" where
  "buffer_step ext doc options =
    write_buffer ext options (gather_links (getLinks doc) Map.empty)
      (ist_images (write_textures doc options)) (ist_imageData (write_textures doc options))"

definition write_buffers :: "externals \<Rightarrow> document \<Rightarrow> writer_options \<Rightarrow> error + buffer_state" where
  "write_buffers ext doc options =
    foldE (buffer_step ext doc options) (listBuffers doc) (initial_buffer_state doc options)"

text \<open>The materials pass, started on empty sampler and texture tables.\<close>

definition write_all_materials :: "document \<Rightarrow> writer_options
    \<Rightarrow> material_def list \<times> texture_state" where
  "write_all_materials doc options =
     write_materials (ist_imageIndexMap (write_textures doc options)) (listMaterials doc)
       \<lparr>json_samplers = [], json_textures = [],
        samplerIndexMap = Map.empty, textureIndexMap = Map.empty\<rparr>"

text \<open>The root JSON object before \<open>clean\<close>, its keys in the order the writer
  assigns them.\<close>

definition root_json :: "document \<Rightarrow> writer_options \<Rightarrow> buffer_state \<Rightarrow> root_object" where
  "root_json doc options s =
    (case write_all_materials doc options of
       (materials, ts) \<Rightarrow>
        (let materialIndexMap = index_table (map mat_id (listMaterials doc)) 0 Map.empty;
             meshIndexMap = index_table (map mesh_id (listMeshes doc)) 0 Map.empty;
             cameraIndexMap = index_table (map cam_id (listCameras doc)) 0 Map.empty;
             nodeIndexMap = index_table (map node_id (listNodes doc)) 0 Map.empty;
             skinIndexMap = index_table (map skin_id (listSkins doc)) 0 Map.empty
         in [(''asset'', Value (getAsset doc)),
             (''accessors'', Accessors (json_accessors s)),
             (''bufferViews'', BufferViews (json_bufferViews s)),
             (''samplers'', Samplers (json_samplers ts)),
             (''textures'', Textures (json_textures ts)),
             (''images'', Images (ist_images (write_textures doc options))),
             (''buffers'', Buffers (json_buffers s)),
             (''materials'', Materials materials),
             (''meshes'', Meshes (map (write_mesh (accessorIndexMap s) materialIndexMap)
                                    (listMeshes doc))),
             (''cameras'', Cameras (map write_camera (listCameras doc))),
             (''nodes'', Nodes (map (\<lambda>n. attach_node meshIndexMap cameraIndexMap skinIndexMap
                                         nodeIndexMap n (write_node n)) (listNodes doc))),
             (''skins'', Skins (map (write_skin (accessorIndexMap s) nodeIndexMap)
                                  (listSkins doc))),
             (''animations'', Animations (map (write_animation (accessorIndexMap s) nodeIndexMap)
                                            (listAnimations doc))),
             (''scenes'', Scenes (map (write_scene nodeIndexMap) (listScenes doc)))]))"

text \<open>\<open>GLTFWriter.write\<close>. The result pairs the native document with the
  warnings given to the logger.\<close>

definition GLTFWriter_write :: "externals \<Rightarrow> document \<Rightarrow> writer_options
    \<Rightarrow> error + native_document \<times> string list" where
  "GLTFWriter_write ext doc options =
    (case write_buffers ext doc options of
       Inl e \<Rightarrow> Inl e
     | Inr s \<Rightarrow> Inr (\<lparr>json = clean (root_json doc options s), nd_resources = resources s\<rparr>,
                     logged s))"


section \<open>Notions used to state the properties\<close>

datatype slot_name = BaseColor | Emissive | Normal | Occlusion | MetallicRoughness

fun get_slot :: "slot_name \<Rightarrow> material \<Rightarrow> texture_slot option" where
  "get_slot BaseColor m = getBaseColorTexture m"
| "get_slot Emissive m = getEmissiveTexture m"
| "get_slot Normal m = getNormalTexture m"
| "get_slot Occlusion m = getOcclusionTexture m"
| "get_slot MetallicRoughness m = getMetallicRoughnessTexture m"

fun get_info :: "slot_name \<Rightarrow> material_def \<Rightarrow> texture_info_def option" where
  "get_info BaseColor d = baseColorTexture (md_pbrMetallicRoughness d)"
| "get_info Emissive d = md_emissiveTexture d"
| "get_info Normal d = md_normalTexture d"
| "get_info Occlusion d = md_occlusionTexture d"
| "get_info MetallicRoughness d = metallicRoughnessTexture (md_pbrMetallicRoughness d)"

definition sampler_key :: "texture_sampler \<Rightarrow> json_key" where
  "sampler_key ts = stringify_sampler
     \<lparr>sd_magFilter = or_undefined (getMagFilter ts), sd_minFilter = or_undefined (getMinFilter ts),
      sd_wrapS = getWrapS ts, sd_wrapT = getWrapT ts\<rparr>"

definition table_ok :: "('k \<rightharpoonup> nat) \<Rightarrow> 'k list \<Rightarrow> bool" where
  "table_ok m ks \<longleftrightarrow> (\<forall>k i. m k = Some i \<longleftrightarrow> i < length ks \<and> ks ! i = k)"

definition tables_ok :: "texture_state \<Rightarrow> bool" where
  "tables_ok s \<longleftrightarrow>
     table_ok (samplerIndexMap s) (map stringify_sampler (json_samplers s))
   \<and> table_ok (textureIndexMap s) (map stringify_texture (json_textures s))"

definition extends :: "texture_state \<Rightarrow> texture_state \<Rightarrow> bool" where
  "extends s s' \<longleftrightarrow> samplerIndexMap s \<subseteq>\<^sub>m samplerIndexMap s' \<and> textureIndexMap s \<subseteq>\<^sub>m textureIndexMap s'"

definition resolved :: "(nat \<rightharpoonup> nat) \<Rightarrow> texture_slot \<Rightarrow> texture_info_def \<Rightarrow> texture_state \<Rightarrow> bool" where
  "resolved imap sl d s \<longleftrightarrow>
     (\<exists>si t. samplerIndexMap s (sampler_key (slot_sampler sl)) = Some si
        \<and> ti_index d = Some t
        \<and> textureIndexMap s (stringify_texture
             \<lparr>td_source = imap (slot_texture sl), td_sampler = Some si\<rparr>) = Some t)"

text \<open>The sampler and texture keys present after a step.\<close>

definition slot_texture_def :: "(nat \<rightharpoonup> nat) \<Rightarrow> texture_state \<Rightarrow> texture_slot \<Rightarrow> texture_def" where
  "slot_texture_def imap s sl =
     \<lparr>td_source = imap (slot_texture sl),
      td_sampler = samplerIndexMap s (sampler_key (slot_sampler sl))\<rparr>"

definition slots_of :: "material \<Rightarrow> texture_slot set" where
  "slots_of m = set_option (getBaseColorTexture m) \<union> set_option (getEmissiveTexture m)
     \<union> set_option (getNormalTexture m) \<union> set_option (getOcclusionTexture m)
     \<union> set_option (getMetallicRoughnessTexture m)"

text \<open>The state of the tables once the slots \<open>S\<close> have been processed.\<close>

definition good :: "(nat \<rightharpoonup> nat) \<Rightarrow> texture_slot set \<Rightarrow> texture_state \<Rightarrow> bool" where
  "good imap S s \<longleftrightarrow> tables_ok s
     \<and> set (map stringify_sampler (json_samplers s)) = (\<lambda>sl. sampler_key (slot_sampler sl)) ` S
     \<and> set (json_textures s) = slot_texture_def imap s ` S"

definition samplers_of :: "native_document \<Rightarrow> sampler_def list" where
  "samplers_of nd = (case map_of (json nd) ''samplers'' of Some (Samplers xs) \<Rightarrow> xs | _ \<Rightarrow> [])"

definition textures_of :: "native_document \<Rightarrow> texture_def list" where
  "textures_of nd = (case map_of (json nd) ''textures'' of Some (Textures xs) \<Rightarrow> xs | _ \<Rightarrow> [])"

definition materials_of :: "native_document \<Rightarrow> material_def list" where
  "materials_of nd = (case map_of (json nd) ''materials'' of Some (Materials xs) \<Rightarrow> xs | _ \<Rightarrow> [])"

definition sample_externals :: externals where
  "sample_externals = \<lparr>NAME = ''@gltf-transform/core'',
     encodeBufferToBase64 = map (\<lambda>b. char_of (unat b)), float32 = (\<lambda>v. 0)\<rparr>"

definition external_options :: writer_options where
  "external_options = \<lparr>basename = ''scene'', isGLB = False, embedded = False\<rparr>"

definition sample_slot :: texture_slot where
  "sample_slot = \<lparr>slot_texture = 0, slot_info = \<lparr>getTexCoord = 0\<rparr>,
     slot_sampler = \<lparr>getMagFilter = None, getMinFilter = Some 9729,
                     getWrapS = 10497, getWrapT = 10497\<rparr>\<rparr>"

definition sample_material :: "nat \<Rightarrow> material" where
  "sample_material i = \<lparr>getName = ''mat'', getExtras = [], getExtensions = [],
     mat_id = i, getAlphaMode = ''OPAQUE'', getAlphaCutoff = 0.5, getDoubleSided = False,
     getBaseColorFactor = [1, 1, 1, 1], getEmissiveFactor = [0, 0, 0],
     getRoughnessFactor = 1, getMetallicFactor = 1,
     getBaseColorTexture = Some sample_slot, getEmissiveTexture = None,
     getNormalTexture = None, getNormalScale = 1,
     getOcclusionTexture = None, getOcclusionStrength = 1,
     getMetallicRoughnessTexture = None\<rparr>"

definition sample_texture :: "byte list \<Rightarrow> nat \<Rightarrow> texture" where
  "sample_texture bytes i = \<lparr>getName = ''tex'', getExtras = [], getExtensions = [],
     tex_id = i, tex_getURI = [], getMimeType = ''image/png'', getImage = bytes\<rparr>"

definition empty_document :: document where
  "empty_document = \<lparr>getAsset = JObj [(''version'', JStr ''2.0'')], getLinks = [],
     listBuffers = [], listTextures = [], listMaterials = [], listMeshes = [],
     listCameras = [], listNodes = [], listSkins = [], listAnimations = [], listScenes = []\<rparr>"

definition shared_sampler_document :: document where
  "shared_sampler_document = empty_document
     \<lparr>listTextures := [sample_texture [1, 2, 3] 0],
      listMaterials := [sample_material 0, sample_material 1]\<rparr>"

text \<open>The byte width of a component type, for the six types of the data model.\<close>

definition component_width :: "nat \<Rightarrow> nat option" where
  "component_width componentType =
    (if componentType = FLOAT then Some 4
     else if componentType = BYTE then Some 1
     else if componentType = SHORT then Some 2
     else if componentType = UNSIGNED_BYTE then Some 1
     else if componentType = UNSIGNED_SHORT then Some 2
     else if componentType = UNSIGNED_INT then Some 4
     else None)"

text \<open>An accessor of the data model: its component type is one of the six, and its
  component size is the width of that type.\<close>

definition well_formed_accessor :: "accessor \<Rightarrow> bool" where
  "well_formed_accessor a \<longleftrightarrow> component_width (getComponentType a) = Some (getComponentSize a)"

definition padded_size :: "accessor \<Rightarrow> nat" where
  "padded_size a = padNumber (getElementSize a * getComponentSize a)"

text \<open>The bytes stored for component \<open>j\<close> of vertex \<open>i\<close>.\<close>

definition stored_component :: "externals \<Rightarrow> accessor \<Rightarrow> nat \<Rightarrow> nat \<Rightarrow> byte list" where
  "stored_component ext a i j =
    (case component_bytes ext (getComponentType a)
            (array_get (getArray a) (i * getElementSize a + j)) of
       Inl e \<Rightarrow> [] | Inr bs \<Rightarrow> bs)"

definition element_bytes :: "externals \<Rightarrow> accessor \<Rightarrow> nat \<Rightarrow> byte list" where
  "element_bytes ext a i =
     concat (map (stored_component ext a i) [0..<getElementSize a])
     @ replicate (padded_size a - getElementSize a * getComponentSize a) 0"

definition vertex_bytes :: "externals \<Rightarrow> accessor list \<Rightarrow> nat \<Rightarrow> byte list" where
  "vertex_bytes ext accessors i = concat (map (\<lambda>a. element_bytes ext a i) accessors)"

definition byteStride_of :: "accessor list \<Rightarrow> nat" where
  "byteStride_of accessors = sum_list (map padded_size accessors)"

fun interleaved_defs :: "nat \<Rightarrow> nat \<Rightarrow> accessor list \<Rightarrow> accessor_def list" where
  "interleaved_defs bufferView off [] = []"
| "interleaved_defs bufferView off (a # as) =
     (createAccessorDef a)\<lparr>ad_bufferView := Some bufferView, ad_byteOffset := Some off\<rparr>
       # interleaved_defs bufferView (off + padded_size a) as"

definition sample_accessor :: "nat \<Rightarrow> string \<Rightarrow> real list \<Rightarrow> accessor" where
  "sample_accessor i semantic values =
    \<lparr>getName = semantic, getExtras = [], getExtensions = [], acc_id = i,
     getType = ''VEC3'', getComponentType = FLOAT, getCount = 3, getElementSize = 3,
     getComponentSize = 4, getMax = [1, 1, 1], getMin = [0, 0, 0], getNormalized = False,
     getArray = \<lparr>elements = values, buffer = replicate 36 0\<rparr>\<rparr>"

definition position_accessor :: accessor where
  "position_accessor = sample_accessor 0 ''POSITION'' [0, 0, 0, 1, 0, 0, 0, 1, 0]"

definition normal_accessor :: accessor where
  "normal_accessor = sample_accessor 1 ''NORMAL'' [0, 0, 1, 0, 0, 1, 0, 0, 1]"

definition fresh_buffer_state :: buffer_state where
  "fresh_buffer_state =
    \<lparr>json_accessors = [], json_bufferViews = [], json_buffers = [], resources = [],
     accessorIndexMap = Map.empty,
     bufferURIGenerator = \<lparr>counter = 1, multiple = False, gen_basename = ''scene''\<rparr>,
     logged = []\<rparr>"

text \<open>The number a byte sequence denotes when read least significant byte first.\<close>

fun little_endian :: "byte list \<Rightarrow> nat" where
  "little_endian [] = 0"
| "little_endian (b # bs) = unat b + 256 * little_endian bs"

definition padded_blob :: "accessor \<Rightarrow> byte list" where
  "padded_blob a = pad (buffer (getArray a))"

fun concatenated_defs :: "nat \<Rightarrow> nat \<Rightarrow> accessor list \<Rightarrow> accessor_def list" where
  "concatenated_defs bufferView off [] = []"
| "concatenated_defs bufferView off (a # as) =
     (createAccessorDef a)\<lparr>ad_bufferView := Some bufferView, ad_byteOffset := Some off\<rparr>
       # concatenated_defs bufferView (off + length (padded_blob a)) as"

text \<open>An accessor definition without the two fields the packer fills in.\<close>

definition strip_def :: "accessor_def \<Rightarrow> accessor_def" where
  "strip_def d = d\<lparr>ad_bufferView := None, ad_byteOffset := None\<rparr>"

text \<open>The accessors of a buffer in the order they are packed.\<close>

definition packed_accessors :: "usage \<Rightarrow> accessor list" where
  "packed_accessors u =
     indexAccessors u @ concat (map snd (attributeAccessors u)) @ otherAccessors u"

text \<open>The targets of the views of a buffer in the order they are packed: the index
  view, one attribute view for each primitive, the view of the other accessors.\<close>

definition view_targets :: "usage \<Rightarrow> nat option list" where
  "view_targets u =
     (if indexAccessors u \<noteq> [] then [Some ELEMENT_ARRAY_BUFFER] else [])
     @ map (\<lambda>g. Some ARRAY_BUFFER) (filter (\<lambda>g. g \<noteq> []) (map snd (attributeAccessors u)))
     @ (if otherAccessors u \<noteq> [] then [None] else [])"

text \<open>What packing the accessors of one buffer has done so far, starting from the
  tables \<open>s\<close>: the views \<open>vs\<close> were appended, \<open>as\<close> were given definitions.\<close>

definition packed :: "buffer_state \<Rightarrow> nat \<Rightarrow> packing \<Rightarrow> buffer_view_def list \<Rightarrow> accessor list \<Rightarrow> bool" where
  "packed s bufferIndex p vs as \<longleftrightarrow>
    (case p of (buffers, bufferByteLength, s') \<Rightarrow>
       json_buffers s' = json_buffers s \<and> resources s' = resources s
     \<and> bufferURIGenerator s' = bufferURIGenerator s \<and> logged s' = logged s
     \<and> json_bufferViews s' = json_bufferViews s @ vs
     \<and> (\<exists>ds. json_accessors s' = json_accessors s @ ds \<and> map strip_def ds = map createAccessorDef as)
     \<and> bufferByteLength = length (concat buffers) \<and> 4 dvd bufferByteLength
     \<and> (\<forall>v\<in>set vs. bv_buffer v = bufferIndex \<and> 4 dvd bv_byteOffset v))"

text \<open>Two buffer views that differ at most in their \<open>byteOffset\<close>.\<close>

definition same_but_offset :: "buffer_view_def \<Rightarrow> buffer_view_def \<Rightarrow> bool" where
  "same_but_offset v v' \<longleftrightarrow> v' = v\<lparr>bv_byteOffset := bv_byteOffset v'\<rparr>"

text \<open>What the loop over \<open>imageData\<close> may have done to a packing: only the
  offsets of the first \<open>n\<close> views (those reserved for images) are touched.\<close>

definition images_appended :: "nat \<Rightarrow> packing \<Rightarrow> packing \<Rightarrow> bool" where
  "images_appended n p p' \<longleftrightarrow>
    (case p of (buffers, len, s1) \<Rightarrow> case p' of (buffers', len', s2) \<Rightarrow>
       json_buffers s2 = json_buffers s1 \<and> resources s2 = resources s1
     \<and> bufferURIGenerator s2 = bufferURIGenerator s1 \<and> logged s2 = logged s1
     \<and> json_accessors s2 = json_accessors s1
     \<and> (len = length (concat buffers) \<longrightarrow> len' = length (concat buffers'))
     \<and> list_all2 same_but_offset (take n (json_bufferViews s1)) (take n (json_bufferViews s2))
     \<and> drop n (json_bufferViews s2) = drop n (json_bufferViews s1))"

text \<open>The image definitions point at the first \<open>n\<close> buffer views.\<close>

definition image_views_below :: "nat \<Rightarrow> image_def list \<Rightarrow> bool" where
  "image_views_below n images \<longleftrightarrow>
     (\<forall>d\<in>set images. \<forall>k. img_bufferView d = Some k \<longrightarrow> k < n)"

text \<open>The usage tables of a buffer whose parents can be categorized.\<close>

definition usage_of :: "(nat \<rightharpoonup> link list) \<Rightarrow> buffer \<Rightarrow> usage" where
  "usage_of links b =
     (case foldE (categorize links) (bufferParents b) empty_usage of
        Inl e \<Rightarrow> empty_usage | Inr u \<Rightarrow> u)"

text \<open>The image pass.\<close>

definition images_ok :: "writer_options \<Rightarrow> image_state \<Rightarrow> bool" where
  "images_ok options s \<longleftrightarrow>
     image_views_below (length (ist_bufferViews s)) (ist_images s)
   \<and> (\<forall>v\<in>set (ist_bufferViews s). bv_buffer v = 0 \<and> bv_target v = None \<and> bv_byteStride v = None)
   \<and> length (ist_imageData s) = length (ist_bufferViews s)
   \<and> (if isGLB options \<or> embedded options
       then length (ist_bufferViews s) = length (ist_images s) \<and> ist_resources s = []
       else ist_bufferViews s = [])"

text \<open>What the writer's tables look like once the buffers \<open>bs\<close> have been written:
  the views reserved for images still come first, then the views of each buffer in
  packing order; all of the latter start at a multiple of 4.\<close>

definition written :: "(nat \<rightharpoonup> link list) \<Rightarrow> buffer_view_def list \<Rightarrow> buffer list
    \<Rightarrow> buffer_state \<Rightarrow> bool" where
  "written links imgs bs s \<longleftrightarrow>
     length imgs \<le> length (json_bufferViews s)
   \<and> list_all2 same_but_offset imgs (take (length imgs) (json_bufferViews s))
   \<and> (\<exists>vss. drop (length imgs) (json_bufferViews s) = concat vss
         \<and> map (map bv_target) vss = map (\<lambda>b. view_targets (usage_of links b)) bs)
   \<and> (\<forall>v\<in>set (drop (length imgs) (json_bufferViews s)). 4 dvd bv_byteOffset v)
   \<and> map strip_def (json_accessors s)
       = map createAccessorDef (concat (map (\<lambda>b. packed_accessors (usage_of links b)) bs))
   \<and> (\<exists>bs'. subseq bs' bs \<and> map bd_prop (json_buffers s) = map createPropertyDef bs')"

definition byte_accessor :: "nat \<Rightarrow> string \<Rightarrow> byte list \<Rightarrow> accessor" where
  "byte_accessor i n bytes =
    \<lparr>getName = n, getExtras = [], getExtensions = [], acc_id = i,
     getType = ''SCALAR'', getComponentType = UNSIGNED_BYTE, getCount = length bytes,
     getElementSize = 1, getComponentSize = 1, getMax = [], getMin = [],
     getNormalized = False,
     getArray = \<lparr>elements = map (\<lambda>b. real (unat b)) bytes, buffer = bytes\<rparr>\<rparr>"

definition sample_buffer :: "string \<Rightarrow> buffer_parent list \<Rightarrow> buffer" where
  "sample_buffer n parents =
    \<lparr>getName = n, getExtras = [], getExtensions = [], buf_getURI = [], listParents = parents\<rparr>"

definition glb_options :: writer_options where
  "glb_options = \<lparr>basename = ''scene'', isGLB = True, embedded = False\<rparr>"

definition image_first_document :: document where
  "image_first_document = empty_document
     \<lparr>getLinks := [\<lparr>kind = Link, getParent = RootRef, getChild = AccessorRef 0\<rparr>,
                   \<lparr>kind = Link, getParent = RootRef, getChild = AccessorRef 1\<rparr>,
                   \<lparr>kind = Link, getParent = OtherRef 8, getChild = AccessorRef 0\<rparr>,
                   \<lparr>kind = IndexLink, getParent = OtherRef 7, getChild = AccessorRef 1\<rparr>],
      listBuffers := [sample_buffer ''buf''
         [ParentRoot, ParentAccessor (byte_accessor 0 ''other'' [1, 2, 3, 4]),
          ParentAccessor (byte_accessor 1 ''indices'' [0, 1, 2, 0])]],
      listTextures := [sample_texture [7, 8, 9] 0]\<rparr>"

definition accessors_of :: "native_document \<Rightarrow> accessor_def list" where
  "accessors_of nd = (case map_of (json nd) ''accessors'' of Some (Accessors xs) \<Rightarrow> xs | _ \<Rightarrow> [])"

definition bufferViews_of :: "native_document \<Rightarrow> buffer_view_def list" where
  "bufferViews_of nd = (case map_of (json nd) ''bufferViews'' of Some (BufferViews xs) \<Rightarrow> xs | _ \<Rightarrow> [])"

definition images_of :: "native_document \<Rightarrow> image_def list" where
  "images_of nd = (case map_of (json nd) ''images'' of Some (Images xs) \<Rightarrow> xs | _ \<Rightarrow> [])"

definition buffers_of :: "native_document \<Rightarrow> buffer_def list" where
  "buffers_of nd = (case map_of (json nd) ''buffers'' of Some (Buffers xs) \<Rightarrow> xs | _ \<Rightarrow> [])"

definition meshes_of :: "native_document \<Rightarrow> mesh_def list" where
  "meshes_of nd = (case map_of (json nd) ''meshes'' of Some (Meshes xs) \<Rightarrow> xs | _ \<Rightarrow> [])"

definition cameras_of :: "native_document \<Rightarrow> camera_def list" where
  "cameras_of nd = (case map_of (json nd) ''cameras'' of Some (Cameras xs) \<Rightarrow> xs | _ \<Rightarrow> [])"

definition nodes_of :: "native_document \<Rightarrow> node_def list" where
  "nodes_of nd = (case map_of (json nd) ''nodes'' of Some (Nodes xs) \<Rightarrow> xs | _ \<Rightarrow> [])"

definition skins_of :: "native_document \<Rightarrow> skin_def list" where
  "skins_of nd = (case map_of (json nd) ''skins'' of Some (Skins xs) \<Rightarrow> xs | _ \<Rightarrow> [])"

definition animations_of :: "native_document \<Rightarrow> animation_def list" where
  "animations_of nd = (case map_of (json nd) ''animations'' of Some (Animations xs) \<Rightarrow> xs | _ \<Rightarrow> [])"

definition scenes_of :: "native_document \<Rightarrow> scene_def list" where
  "scenes_of nd = (case map_of (json nd) ''scenes'' of Some (Scenes xs) \<Rightarrow> xs | _ \<Rightarrow> [])"

text \<open>The number of buffer views reserved for images.\<close>

definition image_view_count :: "document \<Rightarrow> writer_options \<Rightarrow> nat" where
  "image_view_count doc options =
     (if isGLB options \<or> embedded options then length (listTextures doc) else 0)"

definition unaligned_images_document :: document where
  "unaligned_images_document = empty_document
     \<lparr>listBuffers := [sample_buffer ''buf'' [ParentRoot]],
      listTextures := [sample_texture [7] 0, sample_texture [8, 9] 1]\<rparr>"

definition embedded_options :: writer_options where
  "embedded_options = \<lparr>basename = ''scene'', isGLB = False, embedded = True\<rparr>"

definition two_buffers_document :: document where
  "two_buffers_document = empty_document
     \<lparr>listBuffers :=
        [sample_buffer ''first'' [ParentRoot, ParentAccessor (byte_accessor 0 ''a'' [1, 2, 3, 4])],
         sample_buffer ''second''
           [ParentRoot, ParentAccessor (byte_accessor 1 ''b'' [5, 6, 7, 8, 9, 10, 11, 12])]],
      listTextures := [sample_texture [7, 8, 9] 0]\<rparr>"

definition image_first_native :: native_document where
  "image_first_native =
    \<lparr>json =
         [(''asset'', Value (JObj [(''version'', JStr ''2.0'')])),
          (''accessors'',
           Accessors
            [\<lparr>ad_prop =
                \<lparr>def_name = Some ''indices'', def_extras = None,
                   def_extensions = None\<rparr>,
                ad_type = ''SCALAR'', ad_componentType = 5121, ad_count = 4,
                ad_max = [], ad_min = [], ad_normalized = False,
                ad_bufferView = Some 1, ad_byteOffset = Some 0\<rparr>,
             \<lparr>ad_prop =
                \<lparr>def_name = Some ''other'', def_extras = None,
                   def_extensions = None\<rparr>,
                ad_type = ''SCALAR'', ad_componentType = 5121, ad_count = 4,
                ad_max = [], ad_min = [], ad_normalized = False,
                ad_bufferView = Some 2, ad_byteOffset = Some 0\<rparr>]),
          (''bufferViews'',
           BufferViews
            [\<lparr>bv_buffer = 0, bv_byteOffset = 8, bv_byteLength = 3,
                bv_byteStride = None, bv_target = None\<rparr>,
             \<lparr>bv_buffer = 0, bv_byteOffset = 0, bv_byteLength = 4,
                bv_byteStride = None, bv_target = Some 34963\<rparr>,
             \<lparr>bv_buffer = 0, bv_byteOffset = 4, bv_byteLength = 4,
                bv_byteStride = None, bv_target = None\<rparr>]),
          (''images'',
           Images
            [\<lparr>img_prop =
                \<lparr>def_name = Some ''tex'', def_extras = None,
                   def_extensions = None\<rparr>,
                img_mimeType = Some ''image/png'', img_bufferView = Some 0,
                img_uri = None\<rparr>]),
          (''buffers'',
           Buffers
            [\<lparr>bd_prop =
                \<lparr>def_name = Some ''buf'', def_extras = None,
                   def_extensions = None\<rparr>,
                bd_uri = None, bd_byteLength = 11\<rparr>])],
         nd_resources =
           [(''@glb.bin'', [0, 1, 2, 0, 1, 2, 3, 4, 7, 8, 9])]\<rparr>"

definition unaligned_images_native :: native_document where
  "unaligned_images_native =
    \<lparr>json =
         [(''asset'', Value (JObj [(''version'', JStr ''2.0'')])),
          (''bufferViews'',
           BufferViews
            [\<lparr>bv_buffer = 0, bv_byteOffset = 0, bv_byteLength = 1,
                bv_byteStride = None, bv_target = None\<rparr>,
             \<lparr>bv_buffer = 0, bv_byteOffset = 1, bv_byteLength = 2,
                bv_byteStride = None, bv_target = None\<rparr>]),
          (''images'',
           Images
            [\<lparr>img_prop =
                \<lparr>def_name = Some ''tex'', def_extras = None,
                   def_extensions = None\<rparr>,
                img_mimeType = Some ''image/png'', img_bufferView = Some 0,
                img_uri = None\<rparr>,
             \<lparr>img_prop =
                \<lparr>def_name = Some ''tex'', def_extras = None,
                   def_extensions = None\<rparr>,
                img_mimeType = Some ''image/png'', img_bufferView = Some 1,
                img_uri = None\<rparr>]),
          (''buffers'',
           Buffers
            [\<lparr>bd_prop =
                \<lparr>def_name = Some ''buf'', def_extras = None,
                   def_extensions = None\<rparr>,
                bd_uri = None, bd_byteLength = 3\<rparr>])],
         nd_resources = [(''@glb.bin'', [7, 8, 9])]\<rparr>"

definition two_buffers_native :: "externals \<Rightarrow> native_document" where
  "two_buffers_native ext =
    \<lparr>json =
         [(''asset'', Value (JObj [(''version'', JStr ''2.0'')])),
          (''accessors'',
           Accessors
            [\<lparr>ad_prop =
                \<lparr>def_name = Some ''a'', def_extras = None,
                   def_extensions = None\<rparr>,
                ad_type = ''SCALAR'', ad_componentType = 5121, ad_count = 4,
                ad_max = [], ad_min = [], ad_normalized = False,
                ad_bufferView = Some 1, ad_byteOffset = Some 0\<rparr>,
             \<lparr>ad_prop =
                \<lparr>def_name = Some ''b'', def_extras = None,
                   def_extensions = None\<rparr>,
                ad_type = ''SCALAR'', ad_componentType = 5121, ad_count = 8,
                ad_max = [], ad_min = [], ad_normalized = False,
                ad_bufferView = Some 2, ad_byteOffset = Some 0\<rparr>]),
          (''bufferViews'',
           BufferViews
            [\<lparr>bv_buffer = 0, bv_byteOffset = 8, bv_byteLength = 3,
                bv_byteStride = None, bv_target = None\<rparr>,
             \<lparr>bv_buffer = 0, bv_byteOffset = 0, bv_byteLength = 4,
                bv_byteStride = None, bv_target = None\<rparr>,
             \<lparr>bv_buffer = 1, bv_byteOffset = 0, bv_byteLength = 8,
                bv_byteStride = None, bv_target = None\<rparr>]),
          (''images'',
           Images
            [\<lparr>img_prop =
                \<lparr>def_name = Some ''tex'', def_extras = None,
                   def_extensions = None\<rparr>,
                img_mimeType = Some ''image/png'', img_bufferView = Some 0,
                img_uri = None\<rparr>]),
          (''buffers'',
           Buffers
            [\<lparr>bd_prop =
                \<lparr>def_name = Some ''first'', def_extras = None,
                   def_extensions = None\<rparr>,
                bd_uri = Some (''data:application/octet-stream;base64,''
                    @ encodeBufferToBase64 ext [1, 2, 3, 4, 7, 8, 9]),
                bd_byteLength = 7\<rparr>,
             \<lparr>bd_prop =
                \<lparr>def_name = Some ''second'', def_extras = None,
                   def_extensions = None\<rparr>,
                bd_uri = Some (''data:application/octet-stream;base64,''
                    @ encodeBufferToBase64 ext [5, 6, 7, 8, 9, 10, 11, 12, 7, 8, 9]),
                bd_byteLength = 11\<rparr>])],
         nd_resources = []\<rparr>"

definition glb_embedded_options :: writer_options where
  "glb_embedded_options = \<lparr>basename = ''scene'', isGLB = True, embedded = True\<rparr>"

definition single_buffer_document :: document where
  "single_buffer_document = empty_document
     \<lparr>listBuffers :=
        [sample_buffer ''buf'' [ParentRoot, ParentAccessor (byte_accessor 0 ''a'' [1, 2, 3, 4])]]\<rparr>"

definition skipped_buffer_document :: document where
  "skipped_buffer_document = empty_document
     \<lparr>listBuffers :=
        [sample_buffer ''empty'' [ParentRoot],
         sample_buffer ''buf'' [ParentRoot, ParentAccessor (byte_accessor 0 ''a'' [1, 2, 3, 4])]]\<rparr>"

definition single_buffer_json :: "string option \<Rightarrow> root_object" where
  "single_buffer_json uri =
         [(''asset'', Value (JObj [(''version'', JStr ''2.0'')])),
          (''accessors'',
           Accessors
            [\<lparr>ad_prop =
                \<lparr>def_name = Some ''a'', def_extras = None,
                   def_extensions = None\<rparr>,
                ad_type = ''SCALAR'', ad_componentType = 5121, ad_count = 4,
                ad_max = [], ad_min = [], ad_normalized = False,
                ad_bufferView = Some 0, ad_byteOffset = Some 0\<rparr>]),
          (''bufferViews'',
           BufferViews
            [\<lparr>bv_buffer = 0, bv_byteOffset = 0, bv_byteLength = 4,
                bv_byteStride = None, bv_target = None\<rparr>]),
          (''buffers'',
           Buffers
            [\<lparr>bd_prop =
                \<lparr>def_name = Some ''buf'', def_extras = None,
                   def_extensions = None\<rparr>,
                bd_uri = uri, bd_byteLength = 4\<rparr>])]"

text \<open>The links of an accessor put it into more than one of the roles attribute,
  index, other.\<close>

definition roles_overlap :: "link list \<Rightarrow> bool" where
  "roles_overlap refs =
     (case link_flags refs (False, False, False) of
        (isAttribute, isIndex, isOther) \<Rightarrow>
          (isAttribute \<and> isIndex) \<or> (isAttribute \<and> isOther) \<or> (isIndex \<and> isOther))"

text \<open>A graph as the property classes build it: a buffer is referenced by the root and
  by accessors only, and the accessors are those of the data model.\<close>

definition well_typed_buffer :: "buffer \<Rightarrow> bool" where
  "well_typed_buffer b \<longleftrightarrow>
     (\<forall>p\<in>set (listParents b).
        case p of ParentRoot \<Rightarrow> True
        | ParentAccessor a \<Rightarrow> well_formed_accessor a
        | ParentOther n \<Rightarrow> False)"

text \<open>The attribute groups of a usage table hold accessors of the data model.\<close>

definition usage_wf :: "usage \<Rightarrow> bool" where
  "usage_wf u \<longleftrightarrow> (\<forall>g\<in>set (map snd (attributeAccessors u)). \<forall>a\<in>set g. well_formed_accessor a)"

text \<open>Every recorded image has an image definition that points at an existing
  buffer view.\<close>

definition image_data_indexed :: "image_state \<Rightarrow> bool" where
  "image_data_indexed s \<longleftrightarrow>
     (\<forall>i<length (ist_imageData s). i < length (ist_images s)
        \<and> (\<exists>k. img_bufferView (ist_images s ! i) = Some k \<and> k < length (ist_bufferViews s)))"

text \<open>One accessor of the only buffer is referenced as a vertex attribute and as the
  indices of a primitive.\<close>

definition mixed_accessor :: accessor where
  "mixed_accessor = byte_accessor 0 ''mixed'' [0, 1, 2, 0]"

definition mixed_buffer :: buffer where
  "mixed_buffer = sample_buffer ''buf'' [ParentRoot, ParentAccessor mixed_accessor]"

definition mixed_role_document :: document where
  "mixed_role_document = empty_document
     \<lparr>getLinks := [\<lparr>kind = Link, getParent = RootRef, getChild = AccessorRef 0\<rparr>,
                   \<lparr>kind = AttributeLink, getParent = OtherRef 5, getChild = AccessorRef 0\<rparr>,
                   \<lparr>kind = IndexLink, getParent = OtherRef 5, getChild = AccessorRef 0\<rparr>],
      listBuffers := [mixed_buffer]\<rparr>"

text \<open>A buffer that lists a parent that is no accessor before the accessor with the two
  roles.\<close>

definition other_parent_buffer :: buffer where
  "other_parent_buffer =
     sample_buffer ''buf'' [ParentRoot, ParentOther 1, ParentAccessor mixed_accessor]"

definition other_parent_document :: document where
  "other_parent_document = mixed_role_document \<lparr>listBuffers := [other_parent_buffer]\<rparr>"

text \<open>The bytes of the buffer view that interleaves the accessors of one primitive.\<close>

definition interleaved_view :: "externals \<Rightarrow> accessor list \<Rightarrow> byte list" where
  "interleaved_view ext g =
     (case foldE (write_vertex ext g (byteStride_of g)) [0..<getCount (hd g)]
             (replicate (getCount (hd g) * byteStride_of g) 0) of
        Inl e \<Rightarrow> [] | Inr view \<Rightarrow> view)"

text \<open>The raw bytes of a buffer: the padded blobs of its index accessors, the
  interleaved views of its primitives, the padded blobs of its other accessors, and in
  GLB or embedded mode the bytes of the listed images.\<close>

definition buffer_bytes :: "externals \<Rightarrow> document \<Rightarrow> writer_options \<Rightarrow> buffer \<Rightarrow> byte list" where
  "buffer_bytes ext doc options b =
     concat (map padded_blob
        (indexAccessors (usage_of (gather_links (getLinks doc) Map.empty) b)))
   @ concat (map (interleaved_view ext) (filter (\<lambda>g. g \<noteq> [])
        (map snd (attributeAccessors (usage_of (gather_links (getLinks doc) Map.empty) b)))))
   @ concat (map padded_blob
        (otherAccessors (usage_of (gather_links (getLinks doc) Map.empty) b)))
   @ (if isGLB options \<or> embedded options then concat (map getImage (listTextures doc))
      else [])"

text \<open>The listed buffers that have bytes, in listing order.\<close>

definition emitted_buffers :: "externals \<Rightarrow> document \<Rightarrow> writer_options \<Rightarrow> buffer list" where
  "emitted_buffers ext doc options =
     filter (\<lambda>b. buffer_bytes ext doc options b \<noteq> []) (listBuffers doc)"


text \<open>The entries of a list in the order of their first occurrence.\<close>

definition first_uses :: "'a list \<Rightarrow> 'a list" where
  "first_uses xs = rev (remdups (rev xs))"

text \<open>The index of the first occurrence of an entry.\<close>

fun position :: "'a \<Rightarrow> 'a list \<Rightarrow> nat option" where
  "position x [] = None"
| "position x (y # ys) = (if x = y then Some 0 else map_option Suc (position x ys))"

text \<open>The sampler definition as the specification words it: a filter that is absent or
  zero is left out, the wrap modes are stored as they are.\<close>

definition spec_sampler :: "texture_sampler \<Rightarrow> sampler_def" where
  "spec_sampler ts =
     \<lparr>sd_magFilter = (if getMagFilter ts = Some 0 then None else getMagFilter ts),
      sd_minFilter = (if getMinFilter ts = Some 0 then None else getMinFilter ts),
      sd_wrapS = getWrapS ts, sd_wrapT = getWrapT ts\<rparr>"

text \<open>The image a texture refers to: the position at which it is listed (the last one,
  should it be listed twice).\<close>

definition image_source :: "texture list \<Rightarrow> nat \<Rightarrow> nat option" where
  "image_source ts t =
     map_option (\<lambda>k. length ts - Suc k) (position t (rev (map tex_id ts)))"

text \<open>The texture definition of a slot, given the sampler table: the image of its
  texture and the index of its sampler.\<close>

definition spec_texture :: "texture list \<Rightarrow> sampler_def list \<Rightarrow> texture_slot \<Rightarrow> texture_def" where
  "spec_texture ts samplers sl =
     \<lparr>td_source = image_source ts (slot_texture sl),
      td_sampler = position (spec_sampler (slot_sampler sl)) samplers\<rparr>"

text \<open>The texture slots of a material and of a list of materials, in the order in which
  the writer visits them.\<close>

definition material_slots :: "material \<Rightarrow> texture_slot list" where
  "material_slots m =
     concat (map (\<lambda>k. case get_slot k m of None \<Rightarrow> [] | Some sl \<Rightarrow> [sl])
               [BaseColor, Emissive, Normal, Occlusion, MetallicRoughness])"

definition all_slots :: "material list \<Rightarrow> texture_slot list" where
  "all_slots ms = concat (map material_slots ms)"

text \<open>The tables once the slots \<open>L\<close> have been visited, in this order.\<close>

definition visited :: "(nat \<rightharpoonup> nat) \<Rightarrow> texture_slot list \<Rightarrow> texture_state \<Rightarrow> bool" where
  "visited imap L s \<longleftrightarrow> tables_ok s
     \<and> json_samplers s = first_uses (map (\<lambda>sl. spec_sampler (slot_sampler sl)) L)
     \<and> json_textures s = first_uses (map (\<lambda>sl.
          \<lparr>td_source = imap (slot_texture sl),
           td_sampler = position (spec_sampler (slot_sampler sl)) (json_samplers s)\<rparr>) L)"


text \<open>An empty buffer listed before a buffer whose accessor has two roles.\<close>

definition skipped_then_mixed_document :: document where
  "skipped_then_mixed_document = mixed_role_document
     \<lparr>listBuffers := [sample_buffer ''empty'' [ParentRoot], mixed_buffer]\<rparr>"

definition reordered_document :: document where
  "reordered_document = image_first_document
     \<lparr>listTextures := [sample_texture [7, 8, 9] 0, sample_texture [5] 1],
      listMaterials :=
        [(sample_material 0)\<lparr>getBaseColorTexture := Some (sample_slot\<lparr>slot_texture := 1\<rparr>)\<rparr>,
         sample_material 1]\<rparr>"

definition reordered_native :: native_document where
  "reordered_native =
    \<lparr>json =
         [(''asset'', Value (JObj [(''version'', JStr ''2.0'')])),
          (''accessors'',
           Accessors
            [\<lparr>ad_prop =
                \<lparr>def_name = Some ''indices'', def_extras = None,
                   def_extensions = None\<rparr>,
                ad_type = ''SCALAR'', ad_componentType = 5121, ad_count = 4,
                ad_max = [], ad_min = [], ad_normalized = False,
                ad_bufferView = Some 2, ad_byteOffset = Some 0\<rparr>,
             \<lparr>ad_prop =
                \<lparr>def_name = Some ''other'', def_extras = None,
                   def_extensions = None\<rparr>,
                ad_type = ''SCALAR'', ad_componentType = 5121, ad_count = 4,
                ad_max = [], ad_min = [], ad_normalized = False,
                ad_bufferView = Some 3, ad_byteOffset = Some 0\<rparr>]),
          (''bufferViews'',
           BufferViews
            [\<lparr>bv_buffer = 0, bv_byteOffset = 8, bv_byteLength = 3,
                bv_byteStride = None, bv_target = None\<rparr>,
             \<lparr>bv_buffer = 0, bv_byteOffset = 11, bv_byteLength = 1,
                bv_byteStride = None, bv_target = None\<rparr>,
             \<lparr>bv_buffer = 0, bv_byteOffset = 0, bv_byteLength = 4,
                bv_byteStride = None, bv_target = Some 34963\<rparr>,
             \<lparr>bv_buffer = 0, bv_byteOffset = 4, bv_byteLength = 4,
                bv_byteStride = None, bv_target = None\<rparr>]),
          (''samplers'',
           Samplers
            [\<lparr>sd_magFilter = None, sd_minFilter = Some 9729,
                sd_wrapS = 10497, sd_wrapT = 10497\<rparr>]),
          (''textures'',
           Textures
            [\<lparr>td_source = Some 1, td_sampler = Some 0\<rparr>,
             \<lparr>td_source = Some 0, td_sampler = Some 0\<rparr>]),
          (''images'',
           Images
            [\<lparr>img_prop =
                \<lparr>def_name = Some ''tex'', def_extras = None,
                   def_extensions = None\<rparr>,
                img_mimeType = Some ''image/png'', img_bufferView = Some 0,
                img_uri = None\<rparr>,
             \<lparr>img_prop =
                \<lparr>def_name = Some ''tex'', def_extras = None,
                   def_extensions = None\<rparr>,
                img_mimeType = Some ''image/png'', img_bufferView = Some 1,
                img_uri = None\<rparr>]),
          (''buffers'',
           Buffers
            [\<lparr>bd_prop =
                \<lparr>def_name = Some ''buf'', def_extras = None,
                   def_extensions = None\<rparr>,
                bd_uri = None, bd_byteLength = 12\<rparr>]),
          (''materials'',
           Materials
            [\<lparr>md_prop =
                \<lparr>def_name = Some ''mat'', def_extras = None,
                   def_extensions = None\<rparr>,
                md_alphaMode = ''OPAQUE'', md_alphaCutoff = None,
                md_doubleSided = False,
                md_pbrMetallicRoughness =
                  \<lparr>baseColorFactor = [1, 1, 1, 1], roughnessFactor = 1,
                     metallicFactor = 1,
                     baseColorTexture =
                       Some
                        \<lparr>ti_index = Some 0, ti_texCoord = 0,
                           ti_scale = None, ti_strength = None\<rparr>,
                     metallicRoughnessTexture = None\<rparr>,
                md_emissiveFactor = [0, 0, 0], md_emissiveTexture = None,
                md_normalTexture = None, md_occlusionTexture = None\<rparr>,
             \<lparr>md_prop =
                \<lparr>def_name = Some ''mat'', def_extras = None,
                   def_extensions = None\<rparr>,
                md_alphaMode = ''OPAQUE'', md_alphaCutoff = None,
                md_doubleSided = False,
                md_pbrMetallicRoughness =
                  \<lparr>baseColorFactor = [1, 1, 1, 1], roughnessFactor = 1,
                     metallicFactor = 1,
                     baseColorTexture =
                       Some
                        \<lparr>ti_index = Some 1, ti_texCoord = 0,
                           ti_scale = None, ti_strength = None\<rparr>,
                     metallicRoughnessTexture = None\<rparr>,
                md_emissiveFactor = [0, 0, 0], md_emissiveTexture = None,
                md_normalTexture = None, md_occlusionTexture = None\<rparr>])],
         nd_resources =
           [(''@glb.bin'', [0, 1, 2, 0, 1, 2, 3, 4, 7, 8, 9, 5])]\<rparr>"
section \<open>Property definitions\<close>

text \<open>C10. When the extensions object of a property is non-empty,
  \<open>createPropertyDef\<close> stores it in the \<open>extras\<close> field of the definition,
  whatever extras were copied before, and the definition has no \<open>extensions\<close>
  field.\<close>

theorem createPropertyDef_extensions_into_extras:
  "getExtensions p \<noteq> [] \<Longrightarrow>
     def_extras (createPropertyDef p) = Some (getExtensions p)
     \<and> def_extensions (createPropertyDef p) = None"
  by (simp add: createPropertyDef_def Let_def)

theorem createPropertyDef_extensions_into_extras_witness:
  "def_extras (createPropertyDef
       \<lparr>getName = ''n'', getExtras = [(''a'', JNull)], getExtensions = [(''KHR_x'', JBool True)]\<rparr>)
     = Some [(''KHR_x'', JBool True)]
   \<and> def_extensions (createPropertyDef
       \<lparr>getName = ''n'', getExtras = [(''a'', JNull)], getExtensions = [(''KHR_x'', JBool True)]\<rparr>)
     = None"
  using createPropertyDef_extensions_into_extras
    [of "\<lparr>getName = ''n'', getExtras = [(''a'', JNull)], getExtensions = [(''KHR_x'', JBool True)]\<rparr>"]
  by simp


section \<open>Post-processing of the root object\<close>

text \<open>C1. \<open>clean\<close> is documented to remove empty and null values. On the object
  \<open>{asset: null, scenes: []}\<close> it deletes the key of the empty array, but for the
  null value it pushes the value instead of the key onto \<open>unused\<close>, so the key
  \<open>asset\<close> with its null value is still present afterwards.\<close>

theorem clean_keeps_null_valued_key:
  "clean [(''asset'', Value JNull), (''scenes'', Scenes [])] = [(''asset'', Value JNull)]"
  by (simp add: clean_def)


section \<open>Reading the written document\<close>

lemma map_of_fold_delete:
  "map_of (fold AList.delete ks obj) k = (if k \<in> set ks then None else map_of obj k)"
  by (induction ks arbitrary: obj) (auto simp: delete_conv)

lemma map_of_clean:
  "map_of (clean obj) k = (if k \<in> set (unused_of obj) then None else map_of obj k)"
  by (simp add: clean_def map_of_fold_delete)

lemma asset_key:
  "isNullOrEmptyString (Value a) \<Longrightarrow> property_key (Value a) = ''null'' \<or> property_key (Value a) = []"
  by (cases a) auto

lemma write_Inr_json:
  assumes "GLTFWriter_write ext doc options = Inr (nd, w)"
  obtains s where "write_buffers ext doc options = Inr s"
    "json nd = clean (root_json doc options s)" "nd_resources nd = resources s" "w = logged s"
  using assms by (auto simp: GLTFWriter_write_def split: sum.splits)


lemma null_key: "isNullOrEmptyString v \<Longrightarrow> property_key v = ''null'' \<or> property_key v = []"
  by (cases v) (auto dest: asset_key)

lemma unused_of_key:
  assumes "k \<noteq> ''null''" "k \<noteq> []"
  shows "k \<in> set (unused_of obj) \<longleftrightarrow> (\<exists>v. (k, v) \<in> set obj \<and> isEmptyArray v)"
proof (induction obj)
  case Nil
  show ?case by simp
next
  case (Cons p obj)
  obtain key v where p: "p = (key, v)" by (cases p)
  show ?case
    using Cons.IH assms null_key [of v] by (auto simp: p)
qed

lemma map_of_clean_key:
  assumes "k \<noteq> ''null''" "k \<noteq> []" "distinct (map fst obj)"
  shows "map_of (clean obj) k
     = (case map_of obj k of None \<Rightarrow> None | Some v \<Rightarrow> if isEmptyArray v then None else Some v)"
proof (cases "map_of obj k")
  case None
  then show ?thesis by (simp add: map_of_clean)
next
  case (Some v)
  then have "\<And>v'. (k, v') \<in> set obj \<longleftrightarrow> v' = v"
    using assms(3) by (metis map_of_SomeD map_of_is_SomeI option.inject)
  then show ?thesis
    using Some by (simp add: map_of_clean unused_of_key [OF assms(1,2)])
qed

lemma root_json_keys: "distinct (map fst (root_json doc options s))"
  by (cases "write_all_materials doc options") (simp add: root_json_def Let_def)

lemma root_json_lookup:
  "map_of (root_json doc options s) ''accessors'' = Some (Accessors (json_accessors s))"
  "map_of (root_json doc options s) ''bufferViews'' = Some (BufferViews (json_bufferViews s))"
  "map_of (root_json doc options s) ''images''
     = Some (Images (ist_images (write_textures doc options)))"
  "map_of (root_json doc options s) ''buffers'' = Some (Buffers (json_buffers s))"
  "map_of (root_json doc options s) ''meshes''
     = Some (Meshes (map (write_mesh (accessorIndexMap s)
                            (index_table (map mat_id (listMaterials doc)) 0 Map.empty))
                       (listMeshes doc)))"
  "map_of (root_json doc options s) ''cameras'' = Some (Cameras (map write_camera (listCameras doc)))"
  "map_of (root_json doc options s) ''nodes''
     = Some (Nodes (map (\<lambda>n. attach_node (index_table (map mesh_id (listMeshes doc)) 0 Map.empty)
                               (index_table (map cam_id (listCameras doc)) 0 Map.empty)
                               (index_table (map skin_id (listSkins doc)) 0 Map.empty)
                               (index_table (map node_id (listNodes doc)) 0 Map.empty)
                               n (write_node n)) (listNodes doc)))"
  "map_of (root_json doc options s) ''skins''
     = Some (Skins (map (write_skin (accessorIndexMap s)
                           (index_table (map node_id (listNodes doc)) 0 Map.empty))
                      (listSkins doc)))"
  "map_of (root_json doc options s) ''animations''
     = Some (Animations (map (write_animation (accessorIndexMap s)
                                (index_table (map node_id (listNodes doc)) 0 Map.empty))
                           (listAnimations doc)))"
  "map_of (root_json doc options s) ''scenes''
     = Some (Scenes (map (write_scene (index_table (map node_id (listNodes doc)) 0 Map.empty))
                       (listScenes doc)))"
  by (cases "write_all_materials doc options"; simp add: root_json_def Let_def)+

lemma clean_root_json_materials:
  assumes "write_all_materials doc options = (materials, ts)"
  shows "map_of (clean (root_json doc options s)) ''samplers''
           = (if json_samplers ts = [] then None else Some (Samplers (json_samplers ts)))"
    and "map_of (clean (root_json doc options s)) ''textures''
           = (if json_textures ts = [] then None else Some (Textures (json_textures ts)))"
    and "map_of (clean (root_json doc options s)) ''materials''
           = (if materials = [] then None else Some (Materials materials))"
  using assms
  by (simp_all add: map_of_clean_key root_json_keys root_json_def Let_def)

lemma clean_root_json_arrays:
  "map_of (clean (root_json doc options s)) ''accessors''
     = (if json_accessors s = [] then None else Some (Accessors (json_accessors s)))"
  "map_of (clean (root_json doc options s)) ''bufferViews''
     = (if json_bufferViews s = [] then None else Some (BufferViews (json_bufferViews s)))"
  "map_of (clean (root_json doc options s)) ''images''
     = (if ist_images (write_textures doc options) = [] then None
        else Some (Images (ist_images (write_textures doc options))))"
  "map_of (clean (root_json doc options s)) ''buffers''
     = (if json_buffers s = [] then None else Some (Buffers (json_buffers s)))"
  by (simp_all add: map_of_clean_key root_json_keys root_json_lookup)


section \<open>Sampler and texture deduplication\<close>

lemma table_ok_empty: "table_ok Map.empty []"
  by (simp add: table_ok_def)

lemma table_ok_step:
  assumes "table_ok m ks" "m k = None"
  shows "table_ok (m(k \<mapsto> length ks)) (ks @ [k])"
proof -
  have fresh: "\<And>i. i < length ks \<Longrightarrow> ks ! i \<noteq> k"
    using assms unfolding table_ok_def by (metis option.distinct(1))
  show ?thesis
    using assms(1) fresh unfolding table_ok_def
    by (auto simp: nth_append less_Suc_eq)
qed

lemma table_ok_distinct: "table_ok m ks \<Longrightarrow> distinct ks"
  unfolding table_ok_def distinct_conv_nth
  by (metis option.inject)

lemma table_ok_dom: "table_ok m ks \<Longrightarrow> dom m = set ks"
  unfolding table_ok_def by (auto simp: in_set_conv_nth dom_def)

lemma extends_refl: "extends s s" by (simp add: extends_def)

lemma extends_trans: "extends a b \<Longrightarrow> extends b c \<Longrightarrow> extends a c"
  by (auto simp: extends_def intro: map_le_trans)

lemma resolved_mono: "resolved imap sl d s \<Longrightarrow> extends s s' \<Longrightarrow> resolved imap sl d s'"
  unfolding resolved_def extends_def map_le_def
  by (metis domI)

lemma stringify_texture_inj:
  "stringify_texture a = stringify_texture b \<Longrightarrow> a = b"
  by (cases a, cases b)
     (auto simp: stringify_texture_def stringify_field_def split: option.splits)

lemma createTextureInfoDef_step:
  assumes ok: "tables_ok s" and c: "createTextureInfoDef imap sl s = (d, s')"
  shows "tables_ok s' \<and> extends s s' \<and> resolved imap sl d s'
       \<and> set (map stringify_sampler (json_samplers s'))
           = insert (sampler_key (slot_sampler sl)) (set (map stringify_sampler (json_samplers s)))
       \<and> set (json_textures s') = insert (slot_texture_def imap s' sl) (set (json_textures s))"
proof -
  define sd where "sd = \<lparr>sd_magFilter = or_undefined (getMagFilter (slot_sampler sl)),
                       sd_minFilter = or_undefined (getMinFilter (slot_sampler sl)),
                       sd_wrapS = getWrapS (slot_sampler sl),
                       sd_wrapT = getWrapT (slot_sampler sl)\<rparr>"
  define sk where "sk = stringify_sampler sd"
  define s1 where "s1 = (if samplerIndexMap s sk = None
               then s\<lparr>samplerIndexMap := (samplerIndexMap s)(sk \<mapsto> length (json_samplers s)),
                      json_samplers := json_samplers s @ [sd]\<rparr>
               else s)"
  define td where "td = \<lparr>td_source = imap (slot_texture sl), td_sampler = samplerIndexMap s1 sk\<rparr>"
  define tk where "tk = stringify_texture td"
  define s2 where "s2 = (if textureIndexMap s1 tk = None
               then s1\<lparr>textureIndexMap := (textureIndexMap s1)(tk \<mapsto> length (json_textures s1)),
                       json_textures := json_textures s1 @ [td]\<rparr>
               else s1)"
  have sk_key: "sk = sampler_key (slot_sampler sl)"
    by (simp add: sk_def sd_def sampler_key_def)
  have eq: "createTextureInfoDef imap sl s =
      (\<lparr>ti_index = textureIndexMap s2 tk, ti_texCoord = getTexCoord (slot_info sl),
        ti_scale = None, ti_strength = None\<rparr>, s2)"
    unfolding createTextureInfoDef_def Let_def s2_def tk_def td_def s1_def sk_def sd_def
    by (rule refl)
  from c have d: "d = \<lparr>ti_index = textureIndexMap s2 tk, ti_texCoord = getTexCoord (slot_info sl),
                        ti_scale = None, ti_strength = None\<rparr>" and s': "s' = s2"
    unfolding eq by auto
  from ok have oks: "table_ok (samplerIndexMap s) (map stringify_sampler (json_samplers s))"
    and okt: "table_ok (textureIndexMap s) (map stringify_texture (json_textures s))"
    by (simp_all add: tables_ok_def)
  have oks1: "table_ok (samplerIndexMap s1) (map stringify_sampler (json_samplers s1))"
    using table_ok_step [OF oks, of sk] oks by (simp add: s1_def sk_def)
  have t1: "textureIndexMap s1 = textureIndexMap s" "json_textures s1 = json_textures s"
    by (simp_all add: s1_def)
  have le1: "samplerIndexMap s \<subseteq>\<^sub>m samplerIndexMap s1"
    by (auto simp: s1_def map_le_def)
  have keys1: "set (map stringify_sampler (json_samplers s1))
      = insert sk (set (map stringify_sampler (json_samplers s)))"
  proof (cases "samplerIndexMap s sk = None")
    case True
    then show ?thesis by (simp add: s1_def sk_def)
  next
    case False
    then have "sk \<in> set (map stringify_sampler (json_samplers s))"
      using table_ok_dom [OF oks] by auto
    with False show ?thesis by (auto simp: s1_def)
  qed
  obtain si where si: "samplerIndexMap s1 sk = Some si"
    by (cases "samplerIndexMap s sk = None") (auto simp: s1_def)
  have okt1: "table_ok (textureIndexMap s1) (map stringify_texture (json_textures s1))"
    using okt by (simp add: t1)
  have okt2: "table_ok (textureIndexMap s2) (map stringify_texture (json_textures s2))"
    using table_ok_step [OF okt1, of tk] okt1 by (simp add: s2_def tk_def)
  have s2s: "samplerIndexMap s2 = samplerIndexMap s1" "json_samplers s2 = json_samplers s1"
    by (simp_all add: s2_def)
  have le2: "textureIndexMap s1 \<subseteq>\<^sub>m textureIndexMap s2"
    by (auto simp: s2_def map_le_def)
  obtain t where t: "textureIndexMap s2 tk = Some t"
    by (cases "textureIndexMap s1 tk = None") (auto simp: s2_def)
  have texs: "set (json_textures s2) = insert td (set (json_textures s1))"
  proof (cases "textureIndexMap s1 tk = None")
    case True
    then show ?thesis by (simp add: s2_def)
  next
    case False
    then have "tk \<in> set (map stringify_texture (json_textures s1))"
      using table_ok_dom [OF okt1] by auto
    then obtain d' where "d' \<in> set (json_textures s1)" "stringify_texture d' = tk"
      by auto
    then have "td \<in> set (json_textures s1)"
      using stringify_texture_inj [of d' td] by (simp add: tk_def)
    with False show ?thesis by (auto simp: s2_def)
  qed
  have "tables_ok s'"
    using oks1 okt2 by (simp add: tables_ok_def s' s2s)
  moreover have "extends s s'"
    using le1 le2 by (simp add: extends_def s' s2s t1)
  moreover have "resolved imap sl d s'"
    unfolding resolved_def
    using si t by (auto simp: s' s2s d sk_key [symmetric] tk_def td_def)
  moreover have "set (map stringify_sampler (json_samplers s'))
           = insert (sampler_key (slot_sampler sl)) (set (map stringify_sampler (json_samplers s)))"
    using keys1 by (simp add: s' s2s sk_key)
  moreover have "set (json_textures s') = insert (slot_texture_def imap s' sl) (set (json_textures s))"
    using texs by (simp add: s' t1 slot_texture_def_def s2s td_def sk_key)
  ultimately show ?thesis by blast
qed

lemma slots_of_get_slot:
  assumes "sl \<in> slots_of m"
  obtains k where "get_slot k m = Some sl"
proof -
  from assms consider "getBaseColorTexture m = Some sl" | "getEmissiveTexture m = Some sl"
    | "getNormalTexture m = Some sl" | "getOcclusionTexture m = Some sl"
    | "getMetallicRoughnessTexture m = Some sl"
    by (auto simp: slots_of_def elem_set)
  then show ?thesis
  proof cases
    case 1 then show ?thesis using that [of BaseColor] by simp
  next
    case 2 then show ?thesis using that [of Emissive] by simp
  next
    case 3 then show ?thesis using that [of Normal] by simp
  next
    case 4 then show ?thesis using that [of Occlusion] by simp
  next
    case 5 then show ?thesis using that [of MetallicRoughness] by simp
  qed
qed

lemma good_step:
  assumes g: "good imap S s" and c: "createTextureInfoDef imap sl s = (d, s')"
  shows "good imap (insert sl S) s' \<and> extends s s' \<and> resolved imap sl d s'"
proof -
  from g have ok: "tables_ok s" by (simp add: good_def)
  note st = createTextureInfoDef_step [OF ok c]
  have same: "slot_texture_def imap s' x = slot_texture_def imap s x" if "x \<in> S" for x
  proof -
    from that g have "sampler_key (slot_sampler x) \<in> set (map stringify_sampler (json_samplers s))"
      by (auto simp: good_def)
    then have "sampler_key (slot_sampler x) \<in> dom (samplerIndexMap s)"
      using table_ok_dom [OF conjunct1 [OF ok [unfolded tables_ok_def]]] by simp
    moreover from st have "samplerIndexMap s \<subseteq>\<^sub>m samplerIndexMap s'"
      by (simp add: extends_def)
    ultimately show ?thesis
      by (simp add: slot_texture_def_def map_le_def)
  qed
  have "set (json_textures s') = slot_texture_def imap s' ` insert sl S"
    using st g same by (auto simp: good_def)
  with st g show ?thesis
    by (simp add: good_def)
qed

lemma slot_def_step:
  assumes g: "good imap S s" and c: "slot_def imap slot s = (r, s')"
  shows "good imap (S \<union> set_option slot) s' \<and> extends s s'
       \<and> (case slot of None \<Rightarrow> r = None | Some sl \<Rightarrow> \<exists>d. r = Some d \<and> resolved imap sl d s')"
proof (cases slot)
  case None
  with g c show ?thesis by (simp add: slot_def_def extends_refl)
next
  case (Some sl)
  obtain d s1 where cd: "createTextureInfoDef imap sl s = (d, s1)"
    by (cases "createTextureInfoDef imap sl s")
  with c Some have "r = Some d" "s' = s1" by (simp_all add: slot_def_def)
  with good_step [OF g cd] Some show ?thesis by simp
qed

lemma resolved_ti_upd [simp]:
  "resolved imap sl (d\<lparr>ti_scale := x\<rparr>) s = resolved imap sl d s"
  "resolved imap sl (d\<lparr>ti_strength := y\<rparr>) s = resolved imap sl d s"
  by (simp_all add: resolved_def)

lemma write_material_step:
  assumes g: "good imap S s" and c: "write_material imap m s = (md, s')"
  shows "good imap (S \<union> slots_of m) s' \<and> extends s s'
       \<and> (\<forall>k sl. get_slot k m = Some sl \<longrightarrow> (\<exists>d. get_info k md = Some d \<and> resolved imap sl d s'))"
proof -
  obtain r1 s1 where c1: "slot_def imap (getBaseColorTexture m) s = (r1, s1)"
    by (cases "slot_def imap (getBaseColorTexture m) s")
  obtain r2 s2 where c2: "slot_def imap (getEmissiveTexture m) s1 = (r2, s2)"
    by (cases "slot_def imap (getEmissiveTexture m) s1")
  obtain r3 s3 where c3: "slot_def imap (getNormalTexture m) s2 = (r3, s3)"
    by (cases "slot_def imap (getNormalTexture m) s2")
  obtain r4 s4 where c4: "slot_def imap (getOcclusionTexture m) s3 = (r4, s4)"
    by (cases "slot_def imap (getOcclusionTexture m) s3")
  obtain r5 s5 where c5: "slot_def imap (getMetallicRoughnessTexture m) s4 = (r5, s5)"
    by (cases "slot_def imap (getMetallicRoughnessTexture m) s4")
  note t1 = slot_def_step [OF g c1]
  note t2 = slot_def_step [OF t1 [THEN conjunct1] c2]
  note t3 = slot_def_step [OF t2 [THEN conjunct1] c3]
  note t4 = slot_def_step [OF t3 [THEN conjunct1] c4]
  note t5 = slot_def_step [OF t4 [THEN conjunct1] c5]
  from c c1 c2 c3 c4 c5 have s': "s' = s5"
    and i1: "get_info BaseColor md = r1"
    and i2: "get_info Emissive md = r2"
    and i3: "get_info Normal md =
        map_option (\<lambda>d. if getNormalScale m \<noteq> 1 then d\<lparr>ti_scale := Some (getNormalScale m)\<rparr> else d) r3"
    and i4: "get_info Occlusion md =
        map_option (\<lambda>d. if getOcclusionStrength m \<noteq> 1
                           then d\<lparr>ti_strength := Some (getOcclusionStrength m)\<rparr> else d) r4"
    and i5: "get_info MetallicRoughness md = r5"
    by (auto simp: write_material_def)
  have e45: "extends s4 s5" using t5 by simp
  have e35: "extends s3 s5" using t4 e45 extends_trans by blast
  have e25: "extends s2 s5" using t3 e35 extends_trans by blast
  have e15: "extends s1 s5" using t2 e25 extends_trans by blast
  have e05: "extends s s5" using t1 e15 extends_trans by blast
  have U: "S \<union> set_option (getBaseColorTexture m) \<union> set_option (getEmissiveTexture m)
       \<union> set_option (getNormalTexture m) \<union> set_option (getOcclusionTexture m)
       \<union> set_option (getMetallicRoughnessTexture m) = S \<union> slots_of m"
    by (simp add: slots_of_def Un_assoc)
  have G: "good imap (S \<union> slots_of m) s'"
    using t5 [THEN conjunct1] unfolding U s' .
  have R: "\<exists>d. get_info k md = Some d \<and> resolved imap sl d s'" if "get_slot k m = Some sl" for k sl
  proof (cases k)
    case BaseColor
    with that t1 obtain d where "r1 = Some d" "resolved imap sl d s1" by auto
    with e15 i1 BaseColor show ?thesis by (auto simp: s' intro: resolved_mono)
  next
    case Emissive
    with that t2 obtain d where "r2 = Some d" "resolved imap sl d s2" by auto
    with e25 i2 Emissive show ?thesis by (auto simp: s' intro: resolved_mono)
  next
    case Normal
    with that t3 obtain d where "r3 = Some d" "resolved imap sl d s3" by auto
    with e35 i3 Normal show ?thesis by (auto simp: s' intro: resolved_mono)
  next
    case Occlusion
    with that t4 obtain d where "r4 = Some d" "resolved imap sl d s4" by auto
    with e45 i4 Occlusion show ?thesis by (auto simp: s' intro: resolved_mono)
  next
    case MetallicRoughness
    with that t5 obtain d where "r5 = Some d" "resolved imap sl d s5" by auto
    with i5 MetallicRoughness show ?thesis by (auto simp: s')
  qed
  from G e05 R show ?thesis by (simp add: s')
qed

lemma write_materials_steps:
  assumes "good imap S s" "write_materials imap ms s = (defs, s')"
  shows "good imap (S \<union> \<Union> (slots_of ` set ms)) s' \<and> extends s s' \<and> length defs = length ms
       \<and> (\<forall>i k sl. i < length ms \<longrightarrow> get_slot k (ms ! i) = Some sl \<longrightarrow>
             (\<exists>d. get_info k (defs ! i) = Some d \<and> resolved imap sl d s'))"
  using assms
proof (induction ms arbitrary: S s defs s')
  case Nil
  then show ?case by (simp add: extends_refl)
next
  case (Cons m ms)
  obtain md s1 where c1: "write_material imap m s = (md, s1)"
    by (cases "write_material imap m s")
  obtain ds s2 where c2: "write_materials imap ms s1 = (ds, s2)"
    by (cases "write_materials imap ms s1")
  from Cons.prems(2) c1 c2 have defs: "defs = md # ds" and s': "s' = s2" by simp_all
  note m1 = write_material_step [OF Cons.prems(1) c1]
  note m2 = Cons.IH [OF m1 [THEN conjunct1] c2]
  have U: "S \<union> slots_of m \<union> \<Union> (slots_of ` set ms) = S \<union> \<Union> (slots_of ` set (m # ms))"
    by auto
  have e: "extends s s2" using m1 m2 extends_trans by blast
  have R: "\<exists>d. get_info k (defs ! i) = Some d \<and> resolved imap sl d s'"
    if "i < length (m # ms)" "get_slot k ((m # ms) ! i) = Some sl" for i k sl
  proof (cases i)
    case 0
    with that m1 obtain d where "get_info k md = Some d" "resolved imap sl d s1" by auto
    with m2 0 show ?thesis by (auto simp: defs s' intro: resolved_mono)
  next
    case (Suc j)
    with that m2 show ?thesis by (auto simp: defs s')
  qed
  from m2 e R show ?case unfolding U [symmetric] by (simp add: defs s')
qed

lemma good_empty:
  "good imap {} \<lparr>json_samplers = [], json_textures = [],
             samplerIndexMap = Map.empty, textureIndexMap = Map.empty\<rparr>"
  by (simp add: good_def tables_ok_def table_ok_empty)

section \<open>Interleaved packing\<close>

lemma length_le_bytes [simp]: "length (le_bytes n v) = n"
  by (simp add: le_bytes_def)

lemma component_bytes_wf:
  assumes "well_formed_accessor a"
  shows "\<exists>bs. component_bytes ext (getComponentType a) v = Inr bs \<and> length bs = getComponentSize a"
  using assms
  by (auto simp: well_formed_accessor_def component_width_def component_bytes_def split: if_splits)

lemma stored_component_wf:
  assumes "well_formed_accessor a"
  shows "component_bytes ext (getComponentType a) (array_get (getArray a) (i * getElementSize a + j))
           = Inr (stored_component ext a i j)"
    and "length (stored_component ext a i j) = getComponentSize a"
  using component_bytes_wf [OF assms, of ext "array_get (getArray a) (i * getElementSize a + j)"]
  by (auto simp: stored_component_def)

lemma padNumber_ge: "n \<le> padNumber n"
  by (simp add: padNumber_def)

lemma padNumber_dvd: "4 dvd padNumber n"
  by (simp add: padNumber_def)

lemma view_write_frontier:
  assumes "length P = off" "length bs \<le> m"
  shows "view_write (P @ replicate m 0) off bs = Inr (P @ bs @ replicate (m - length bs) 0)"
  using assms by (simp add: view_write_def)

lemma write_components:
  assumes wf: "well_formed_accessor a"
    and "length P = i * byteStride + vbo + j0 * getComponentSize a"
    and "(getElementSize a - j0) * getComponentSize a \<le> m"
  shows "foldE (write_component ext a byteStride i vbo) [j0..<getElementSize a] (P @ replicate m 0)
       = Inr (P @ concat (map (stored_component ext a i) [j0..<getElementSize a])
                @ replicate (m - (getElementSize a - j0) * getComponentSize a) 0)"
  using assms(2,3)
proof (induction "getElementSize a - j0" arbitrary: j0 P m)
  case 0
  then show ?case by simp
next
  case (Suc n)
  then have lt: "j0 < getElementSize a" by simp
  let ?cs = "getComponentSize a"
  let ?b = "stored_component ext a i j0"
  have len: "length ?b = ?cs" by (rule stored_component_wf [OF wf])
  from Suc.prems(2) lt have cs_le: "?cs \<le> m"
    by (metis Suc.hyps(2) le_add1 le_trans mult_Suc)
  have step: "write_component ext a byteStride i vbo j0 (P @ replicate m 0)
      = Inr ((P @ ?b) @ replicate (m - ?cs) 0)"
    using view_write_frontier [of P _ ?b m] Suc.prems(1) cs_le len
    by (simp add: write_component_def stored_component_wf(1) [OF wf])
  have n: "n = getElementSize a - Suc j0" using Suc.hyps(2) by simp
  have l2: "length (P @ ?b) = i * byteStride + vbo + Suc j0 * ?cs"
    using Suc.prems(1) len by simp
  have d: "getElementSize a - j0 = Suc (getElementSize a - Suc j0)"
    using lt by arith
  have e: "(getElementSize a - j0) * ?cs = ?cs + (getElementSize a - Suc j0) * ?cs"
    unfolding d by simp
  have m2: "(getElementSize a - Suc j0) * ?cs \<le> m - ?cs"
    using Suc.prems(2) unfolding e by simp
  have eq: "m - ?cs - (getElementSize a - Suc j0) * ?cs = m - (getElementSize a - j0) * ?cs"
    unfolding e by simp
  show ?case
    using Suc.hyps(1) [OF n l2 m2] step lt
    by (simp add: upt_conv_Cons e)
qed

lemma es_cs_le_padded: "getElementSize a * getComponentSize a \<le> padded_size a"
  by (simp add: padded_size_def padNumber_ge)

lemma length_element_bytes:
  assumes "well_formed_accessor a"
  shows "length (element_bytes ext a i) = padded_size a"
proof -
  have "length (concat (map (stored_component ext a i) [0..<getElementSize a]))
      = getElementSize a * getComponentSize a"
    by (simp add: length_concat comp_def stored_component_wf(2) [OF assms] sum_list_triv)
  then show ?thesis
    using es_cs_le_padded [of a] by (simp add: element_bytes_def)
qed

lemma write_accessor_frontier:
  assumes wf: "well_formed_accessor a"
    and len: "length P = i * byteStride + vbo"
    and m: "padded_size a \<le> m"
  shows "write_accessor ext byteStride i a (P @ replicate m 0, vbo)
       = Inr (P @ element_bytes ext a i @ replicate (m - padded_size a) 0, vbo + padded_size a)"
proof -
  let ?n = "getElementSize a * getComponentSize a"
  have le: "?n \<le> m" using es_cs_le_padded [of a] m by simp
  have "foldE (write_component ext a byteStride i vbo) [0..<getElementSize a] (P @ replicate m 0)
       = Inr (P @ concat (map (stored_component ext a i) [0..<getElementSize a])
                @ replicate (m - ?n) 0)"
    using write_components [OF wf, of P i byteStride vbo 0 m ext] len le by simp
  moreover have "replicate (m - ?n) (0::byte)
      = replicate (padded_size a - ?n) 0 @ replicate (m - padded_size a) 0"
    using es_cs_le_padded [of a] m by (simp add: replicate_add [symmetric])
  ultimately show ?thesis
    by (simp add: write_accessor_def element_bytes_def padded_size_def)
qed

lemma length_vertex_bytes:
  assumes "\<forall>a\<in>set as. well_formed_accessor a"
  shows "length (vertex_bytes ext as i) = byteStride_of as"
  using assms
  by (induction as) (simp_all add: vertex_bytes_def byteStride_of_def length_element_bytes)

lemma write_accessors_frontier:
  assumes "\<forall>a\<in>set as. well_formed_accessor a"
    and "length P = i * byteStride + vbo"
    and "byteStride_of as \<le> m"
  shows "foldE (write_accessor ext byteStride i) as (P @ replicate m 0, vbo)
       = Inr (P @ vertex_bytes ext as i @ replicate (m - byteStride_of as) 0,
              vbo + byteStride_of as)"
  using assms
proof (induction as arbitrary: P m vbo)
  case Nil
  then show ?case by (simp add: vertex_bytes_def byteStride_of_def)
next
  case (Cons a as)
  from Cons.prems have wf: "well_formed_accessor a" and wfs: "\<forall>a\<in>set as. well_formed_accessor a"
    and pm: "padded_size a \<le> m" and rest: "byteStride_of as \<le> m - padded_size a"
    by (simp_all add: byteStride_of_def)
  have step: "write_accessor ext byteStride i a (P @ replicate m 0, vbo)
       = Inr ((P @ element_bytes ext a i) @ replicate (m - padded_size a) 0, vbo + padded_size a)"
    using write_accessor_frontier [OF wf Cons.prems(2) pm] by simp
  have l2: "length (P @ element_bytes ext a i) = i * byteStride + (vbo + padded_size a)"
    using Cons.prems(2) length_element_bytes [OF wf] by simp
  show ?case
    using Cons.IH [OF wfs l2 rest] step
    by (simp add: vertex_bytes_def byteStride_of_def add.assoc)
qed

lemma write_vertex_frontier:
  assumes "\<forall>a\<in>set as. well_formed_accessor a"
    and "length P = i * byteStride_of as"
    and "byteStride_of as \<le> m"
  shows "write_vertex ext as (byteStride_of as) i (P @ replicate m 0)
       = Inr (P @ vertex_bytes ext as i @ replicate (m - byteStride_of as) 0)"
  using write_accessors_frontier [OF assms(1), of P i "byteStride_of as" 0 m ext] assms(2,3)
  by (simp add: write_vertex_def)

lemma write_vertices:
  assumes wf: "\<forall>a\<in>set as. well_formed_accessor a"
    and "length P = i0 * byteStride_of as"
    and "(n - i0) * byteStride_of as \<le> m"
  shows "foldE (write_vertex ext as (byteStride_of as)) [i0..<n] (P @ replicate m 0)
       = Inr (P @ concat (map (vertex_bytes ext as) [i0..<n])
                @ replicate (m - (n - i0) * byteStride_of as) 0)"
  using assms(2,3)
proof (induction "n - i0" arbitrary: i0 P m)
  case 0
  then show ?case by simp
next
  case (Suc k)
  then have lt: "i0 < n" by simp
  let ?st = "byteStride_of as"
  have d: "n - i0 = Suc (n - Suc i0)" using lt by arith
  have e: "(n - i0) * ?st = ?st + (n - Suc i0) * ?st"
    unfolding d by simp
  have st_le: "?st \<le> m" using Suc.prems(2) unfolding e by simp
  have step: "write_vertex ext as ?st i0 (P @ replicate m 0)
       = Inr ((P @ vertex_bytes ext as i0) @ replicate (m - ?st) 0)"
    using write_vertex_frontier [OF wf Suc.prems(1) st_le] by simp
  have k: "k = n - Suc i0" using Suc.hyps(2) by simp
  have l2: "length (P @ vertex_bytes ext as i0) = Suc i0 * ?st"
    using Suc.prems(1) length_vertex_bytes [OF wf] by simp
  have m2: "(n - Suc i0) * ?st \<le> m - ?st"
    using Suc.prems(2) unfolding e by simp
  show ?case
    using Suc.hyps(1) [OF k l2 m2] step lt
    by (simp add: upt_conv_Cons e)
qed

lemma interleave_write_loop:
  assumes "\<forall>a\<in>set as. well_formed_accessor a"
  shows "foldE (write_vertex ext as (byteStride_of as)) [0..<n] (replicate (n * byteStride_of as) 0)
       = Inr (concat (map (vertex_bytes ext as) [0..<n]))"
  using write_vertices [OF assms, of "[]" 0 n "n * byteStride_of as" ext]
  by simp

lemma interleave_defs_result:
  "\<exists>m. interleave_defs as off s =
     (off + byteStride_of as,
      s\<lparr>accessorIndexMap := m,
        json_accessors := json_accessors s @ interleaved_defs (length (json_bufferViews s)) off as\<rparr>)"
proof (induction as arbitrary: off s)
  case Nil
  show ?case
    by (rule exI [of _ "accessorIndexMap s"]) (simp add: byteStride_of_def)
next
  case (Cons a as)
  let ?s1 = "s\<lparr>accessorIndexMap := (accessorIndexMap s)(acc_id a \<mapsto> length (json_accessors s)),
             json_accessors := json_accessors s @
               [(createAccessorDef a)\<lparr>ad_bufferView := Some (length (json_bufferViews s)),
                                       ad_byteOffset := Some off\<rparr>]\<rparr>"
  from Cons.IH [of "off + padded_size a" ?s1] obtain m where
    "interleave_defs as (off + padded_size a) ?s1 =
       (off + padded_size a + byteStride_of as,
        ?s1\<lparr>accessorIndexMap := m,
          json_accessors := json_accessors ?s1 @
            interleaved_defs (length (json_bufferViews ?s1)) (off + padded_size a) as\<rparr>)"
    by blast
  then show ?case
    by (intro exI [of _ m]) (simp add: Let_def padded_size_def byteStride_of_def)
qed

lemma length_interleaved_defs [simp]: "length (interleaved_defs bv off as) = length as"
  by (induction as arbitrary: off) simp_all

lemma interleaved_defs_nth:
  "k < length as \<Longrightarrow> interleaved_defs bv off as ! k =
     (createAccessorDef (as ! k))\<lparr>ad_bufferView := Some bv,
        ad_byteOffset := Some (off + sum_list (map padded_size (take k as)))\<rparr>"
proof (induction as arbitrary: off k)
  case Nil
  then show ?case by simp
next
  case (Cons a as)
  then show ?case by (cases k) (simp_all add: add.assoc)
qed

lemma take_drop_nested:
  "a + n \<le> m \<Longrightarrow> take n (drop a (take m (drop b xs))) = take n (drop (b + a) xs)"
  by (simp add: drop_take min_def add.commute)

lemma uniform_block:
  assumes "\<And>x. length (f x) = L" "i < n"
  shows "take L (drop (i * L) (concat (map f [0..<n]))) = f i"
  using assms(2)
proof (induction n)
  case 0
  then show ?case by simp
next
  case (Suc n)
  have len: "length (concat (map f [0..<n])) = n * L"
    by (simp add: length_concat comp_def assms(1) sum_list_triv)
  show ?case
  proof (cases "i < n")
    case True
    then have "Suc i \<le> n" by simp
    then have "Suc i * L \<le> n * L" by (rule mult_le_mono1)
    then have "i * L + L \<le> n * L" by simp
    then show ?thesis
      using Suc.IH [OF True] len by simp
  next
    case False
    with Suc.prems have "i = n" by simp
    then show ?thesis using len assms(1) by simp
  qed
qed

lemma sized_block:
  "k < length xs \<Longrightarrow>
     take (length (g (xs ! k))) (drop (sum_list (map (\<lambda>x. length (g x)) (take k xs)))
       (concat (map g xs))) = g (xs ! k)"
proof (induction xs arbitrary: k)
  case Nil
  then show ?case by simp
next
  case (Cons x xs)
  then show ?case by (cases k) simp_all
qed

lemma sum_take_le:
  fixes f :: "'a \<Rightarrow> nat"
  shows "k < length xs \<Longrightarrow> sum_list (map f (take k xs)) + f (xs ! k) \<le> sum_list (map f xs)"
proof (induction xs arbitrary: k)
  case Nil
  then show ?case by simp
next
  case (Cons x xs)
  then show ?case by (cases k) simp_all
qed

text \<open>Where component \<open>j\<close> of vertex \<open>i\<close> of the \<open>k\<close>-th accessor lies in the
  interleaved bytes.\<close>

lemma interleaved_component_at:
  assumes wf: "\<forall>a\<in>set as. well_formed_accessor a"
    and k: "k < length as" and i: "i < n" and j: "j < getElementSize (as ! k)"
  shows "take (getComponentSize (as ! k))
           (drop (i * byteStride_of as + sum_list (map padded_size (take k as))
                    + j * getComponentSize (as ! k))
              (concat (map (vertex_bytes ext as) [0..<n])))
         = stored_component ext (as ! k) i j"
proof -
  let ?a = "as ! k"
  let ?cs = "getComponentSize ?a"
  let ?es = "getElementSize ?a"
  let ?S = "byteStride_of as"
  let ?off = "sum_list (map padded_size (take k as))"
  let ?view = "concat (map (vertex_bytes ext as) [0..<n])"
  from wf k have wfa: "well_formed_accessor ?a" by simp
  have lenE: "\<And>a. a \<in> set as \<Longrightarrow> length (element_bytes ext a i) = padded_size a"
    using wf length_element_bytes by blast
  have V: "take ?S (drop (i * ?S) ?view) = vertex_bytes ext as i"
    using uniform_block [of "vertex_bytes ext as" ?S i n] length_vertex_bytes [OF wf] i by simp
  have offs: "sum_list (map (\<lambda>x. length (element_bytes ext x i)) (take k as)) = ?off"
    using lenE by (intro arg_cong [of _ _ sum_list] map_cong refl) (auto dest: in_set_takeD)
  have E: "take (padded_size ?a) (drop ?off (vertex_bytes ext as i)) = element_bytes ext ?a i"
    using sized_block [OF k, of "\<lambda>a. element_bytes ext a i"] offs length_element_bytes [OF wfa, of ext i]
    by (simp add: vertex_bytes_def)
  have C0: "take ?cs (drop (j * ?cs) (concat (map (stored_component ext ?a i) [0..<?es])))
      = stored_component ext ?a i j"
    using uniform_block [of "stored_component ext ?a i" ?cs j ?es] stored_component_wf(2) [OF wfa] j
    by simp
  have lenC: "length (concat (map (stored_component ext ?a i) [0..<?es])) = ?es * ?cs"
    by (simp add: length_concat comp_def stored_component_wf(2) [OF wfa] sum_list_triv)
  have jle: "j * ?cs + ?cs \<le> ?es * ?cs"
  proof -
    from j have "Suc j \<le> ?es" by simp
    then have "Suc j * ?cs \<le> ?es * ?cs" by (rule mult_le_mono1)
    then show ?thesis by simp
  qed
  have C1: "take ?cs (drop (j * ?cs) (element_bytes ext ?a i)) = stored_component ext ?a i j"
    using C0 lenC jle by (simp add: element_bytes_def)
  have jle2: "j * ?cs + ?cs \<le> padded_size ?a"
    using jle es_cs_le_padded [of ?a] by simp
  have offle: "?off + padded_size ?a \<le> ?S"
    using sum_take_le [OF k, of padded_size] by (simp add: byteStride_of_def)
  have "stored_component ext ?a i j
      = take ?cs (drop (j * ?cs) (take (padded_size ?a) (drop ?off (vertex_bytes ext as i))))"
    using C1 E by simp
  also have "\<dots> = take ?cs (drop (?off + j * ?cs) (vertex_bytes ext as i))"
    using jle2 by (rule take_drop_nested)
  also have "\<dots> = take ?cs (drop (?off + j * ?cs) (take ?S (drop (i * ?S) ?view)))"
    using V by simp
  also have "\<dots> = take ?cs (drop (i * ?S + (?off + j * ?cs)) ?view)"
    using jle2 offle by (intro take_drop_nested) simp
  finally show ?thesis by (simp add: add.assoc)
qed

lemma le_bytes_Suc: "le_bytes (Suc n) z = word_of_int z # le_bytes n (z div 256)"
proof -
  have "[0..<Suc n] = 0 # map Suc [0..<n]"
    by (simp add: upt_conv_Cons map_Suc_upt del: upt_Suc)
  moreover have "z div 256 ^ Suc k = (z div 256) div 256 ^ k" for k
    by (simp add: zdiv_zmult2_eq)
  ultimately show ?thesis
    by (simp add: le_bytes_def comp_def del: upt_Suc power_Suc)
qed

lemma unat_byte_of_int: "unat (word_of_int z :: byte) = nat (z mod 256)"
  by (simp add: unat_eq_nat_uint uint_word_of_int_eq take_bit_eq_mod)

lemma little_endian_le_bytes: "little_endian (le_bytes n z) = nat (z mod 2 ^ (8 * n))"
proof (induction n arbitrary: z)
  case 0
  show ?case by (simp add: le_bytes_def)
next
  case (Suc n)
  let ?m = "(2::int) ^ (8 * n)"
  have m: "0 < ?m" by simp
  have p: "(2::int) ^ (8 * Suc n) = 256 * ?m"
    by (simp add: power_add)
  have "z mod (256 * ?m) = 256 * (z div 256 mod ?m) + z mod 256"
    by (rule zmod_zmult2_eq) simp
  moreover have "0 \<le> z div 256 mod ?m" "0 \<le> z mod 256"
    using m by simp_all
  ultimately have "nat (z mod (256 * ?m)) = nat (z mod 256) + 256 * nat (z div 256 mod ?m)"
    by (simp add: nat_add_distrib nat_mult_distrib)
  then show ?case
    unfolding le_bytes_Suc little_endian.simps unat_byte_of_int Suc.IH p by (rule sym)
qed

lemma component_bytes_integer:
  assumes "well_formed_accessor a" "getComponentType a \<noteq> FLOAT"
  shows "component_bytes ext (getComponentType a) v
           = Inr (le_bytes (getComponentSize a) (ToInteger v))"
proof -
  from assms have w: "(if getComponentType a = BYTE then Some 1
     else if getComponentType a = SHORT then Some 2
     else if getComponentType a = UNSIGNED_BYTE then Some 1
     else if getComponentType a = UNSIGNED_SHORT then Some 2
     else if getComponentType a = UNSIGNED_INT then Some 4
     else None) = Some (getComponentSize a)"
    by (simp add: well_formed_accessor_def component_width_def)
  then consider "getComponentType a = BYTE" "getComponentSize a = 1"
    | "getComponentType a \<noteq> BYTE" "getComponentType a = SHORT" "getComponentSize a = 2"
    | "getComponentType a \<noteq> BYTE" "getComponentType a \<noteq> SHORT"
      "getComponentType a = UNSIGNED_BYTE" "getComponentSize a = 1"
    | "getComponentType a \<noteq> BYTE" "getComponentType a \<noteq> SHORT"
      "getComponentType a \<noteq> UNSIGNED_BYTE"
      "getComponentType a = UNSIGNED_SHORT" "getComponentSize a = 2"
    | "getComponentType a \<noteq> BYTE" "getComponentType a \<noteq> SHORT"
      "getComponentType a \<noteq> UNSIGNED_BYTE" "getComponentType a \<noteq> UNSIGNED_SHORT"
      "getComponentType a = UNSIGNED_INT" "getComponentSize a = 4"
    by (auto split: if_splits)
  then show ?thesis
    using assms(2) by cases (simp_all add: component_bytes_def)
qed

lemma component_bytes_little_endian:
  assumes "well_formed_accessor a"
    and "component_bytes ext (getComponentType a) v = Inr bs"
  shows "little_endian bs =
     (if getComponentType a = FLOAT then unat (float32 ext v)
      else case v of Undefined \<Rightarrow> 0
           | Number r \<Rightarrow> nat ((if 0 \<le> r then \<lfloor>r\<rfloor> else \<lceil>r\<rceil>) mod 2 ^ (8 * getComponentSize a)))"
proof (cases "getComponentType a = FLOAT")
  case True
  with assms(2) have bs: "bs = le_bytes 4 (uint (float32 ext v))"
    by (simp add: component_bytes_def)
  have "uint (float32 ext v) < 2 ^ LENGTH(32)"
    by (rule uint_lt2p)
  then have "uint (float32 ext v) mod 2 ^ (8 * 4) = uint (float32 ext v)"
    by simp
  then have "little_endian bs = nat (uint (float32 ext v))"
    by (simp only: bs little_endian_le_bytes)
  also have "\<dots> = unat (float32 ext v)"
    by (rule unat_eq_nat_uint [symmetric])
  finally show ?thesis using True by simp
next
  case False
  from component_bytes_integer [OF assms(1) False, of ext v] assms(2)
  have bs: "bs = le_bytes (getComponentSize a) (ToInteger v)" by simp
  have "little_endian bs = nat (ToInteger v mod 2 ^ (8 * getComponentSize a))"
    unfolding bs by (rule little_endian_le_bytes)
  with False show ?thesis
    by (cases v) (simp_all add: ToInteger_def)
qed

text \<open>C7. For a non-empty list of accessors of the data model that all have the
  count \<open>n\<close>, \<open>interleaveAccessors\<close> returns, and the buffer view it emits has
  \<open>byteStride\<close> equal to the sum of \<open>padTo4(elementSize * componentSize)\<close> over the
  accessors in order, \<open>byteLength = n * byteStride\<close> and target 34962. The JSON
  \<open>byteOffset\<close> of each accessor is the sum of the padded element sizes of the
  accessors before it. Component \<open>j\<close> of vertex \<open>i\<close> occupies the
  \<open>componentSize\<close> bytes at offset \<open>i * byteStride + byteOffset + j * componentSize\<close>
  of the packed bytes, and these bytes, read least significant byte first, are the
  component value: the 32 bits of its single-precision encoding for a FLOAT, and for
  the integer types the value truncated to an integer and reduced modulo
  \<open>2 ^ (8 * componentSize)\<close> (two's complement for the signed types).\<close>

theorem interleaveAccessors_layout:
  assumes ne: "accessors \<noteq> []"
    and cnt: "\<forall>a\<in>set accessors. getCount a = n"
    and wf: "\<forall>a\<in>set accessors. well_formed_accessor a"
  shows "\<exists>r s' view defs.
      interleaveAccessors ext accessors bufferIndex bufferByteOffset s = Inr (r, s')
    \<and> res_byteLength r = n * byteStride_of accessors
    \<and> res_buffers r = [view] \<and> length view = n * byteStride_of accessors
    \<and> json_bufferViews s' = json_bufferViews s @
         [\<lparr>bv_buffer = bufferIndex, bv_byteOffset = int bufferByteOffset,
           bv_byteLength = n * byteStride_of accessors,
           bv_byteStride = Some (byteStride_of accessors), bv_target = Some ARRAY_BUFFER\<rparr>]
    \<and> json_accessors s' = json_accessors s @ defs \<and> length defs = length accessors
    \<and> (\<forall>k<length accessors.
          defs ! k = (createAccessorDef (accessors ! k))
             \<lparr>ad_bufferView := Some (length (json_bufferViews s)),
              ad_byteOffset := Some (sum_list (map padded_size (take k accessors)))\<rparr>)
    \<and> (\<forall>k<length accessors. \<forall>i<n. \<forall>j<getElementSize (accessors ! k).
          length (take (getComponentSize (accessors ! k))
                  (drop (i * byteStride_of accessors
                          + sum_list (map padded_size (take k accessors))
                          + j * getComponentSize (accessors ! k)) view))
            = getComponentSize (accessors ! k)
        \<and> little_endian (take (getComponentSize (accessors ! k))
                  (drop (i * byteStride_of accessors
                          + sum_list (map padded_size (take k accessors))
                          + j * getComponentSize (accessors ! k)) view))
            = (if getComponentType (accessors ! k) = FLOAT
               then unat (float32 ext
                      (array_get (getArray (accessors ! k)) (i * getElementSize (accessors ! k) + j)))
               else case array_get (getArray (accessors ! k)) (i * getElementSize (accessors ! k) + j) of
                      Undefined \<Rightarrow> 0
                    | Number r \<Rightarrow> nat ((if 0 \<le> r then \<lfloor>r\<rfloor> else \<lceil>r\<rceil>)
                                       mod 2 ^ (8 * getComponentSize (accessors ! k)))))"
proof -
  let ?S = "byteStride_of accessors"
  let ?view = "concat (map (vertex_bytes ext accessors) [0..<n])"
  let ?defs = "interleaved_defs (length (json_bufferViews s)) 0 accessors"
  from ne obtain a0 rest where acc: "accessors = a0 # rest" by (cases accessors) auto
  with cnt have n: "getCount a0 = n" by simp
  obtain m where d: "interleave_defs accessors 0 s =
     (?S, s\<lparr>accessorIndexMap := m, json_accessors := json_accessors s @ ?defs\<rparr>)"
    using interleave_defs_result [of accessors 0 s] by auto
  let ?s' = "s\<lparr>accessorIndexMap := m, json_accessors := json_accessors s @ ?defs,
               json_bufferViews := json_bufferViews s @
         [\<lparr>bv_buffer = bufferIndex, bv_byteOffset = int bufferByteOffset,
           bv_byteLength = n * ?S, bv_byteStride = Some ?S, bv_target = Some ARRAY_BUFFER\<rparr>]\<rparr>"
  let ?r = "\<lparr>res_byteLength = n * ?S, res_buffers = [?view]\<rparr>"
  have run: "interleaveAccessors ext accessors bufferIndex bufferByteOffset s = Inr (?r, ?s')"
    unfolding interleaveAccessors_def
    using d interleave_write_loop [OF wf, of ext n] n
    by (simp add: acc Let_def)
  have len: "length ?view = n * ?S"
    by (simp add: length_concat comp_def length_vertex_bytes [OF wf] sum_list_triv)
  have offs: "\<forall>k<length accessors. ?defs ! k = (createAccessorDef (accessors ! k))
             \<lparr>ad_bufferView := Some (length (json_bufferViews s)),
              ad_byteOffset := Some (sum_list (map padded_size (take k accessors)))\<rparr>"
    by (simp add: interleaved_defs_nth)
  have comp: "\<forall>k<length accessors. \<forall>i<n. \<forall>j<getElementSize (accessors ! k).
          component_bytes ext (getComponentType (accessors ! k))
              (array_get (getArray (accessors ! k)) (i * getElementSize (accessors ! k) + j))
          = Inr (take (getComponentSize (accessors ! k))
                  (drop (i * ?S + sum_list (map padded_size (take k accessors))
                          + j * getComponentSize (accessors ! k)) ?view))"
  proof (intro allI impI)
    fix k i j
    assume k: "k < length accessors" and i: "i < n" and j: "j < getElementSize (accessors ! k)"
    from wf k have "well_formed_accessor (accessors ! k)" by simp
    from stored_component_wf(1) [OF this, of ext i j]
      interleaved_component_at [OF wf k i j, of ext]
    show "component_bytes ext (getComponentType (accessors ! k))
              (array_get (getArray (accessors ! k)) (i * getElementSize (accessors ! k) + j))
          = Inr (take (getComponentSize (accessors ! k))
                  (drop (i * ?S + sum_list (map padded_size (take k accessors))
                          + j * getComponentSize (accessors ! k)) ?view))"
      by simp
  qed
  have bytes: "\<forall>k<length accessors. \<forall>i<n. \<forall>j<getElementSize (accessors ! k).
          length (take (getComponentSize (accessors ! k))
                  (drop (i * ?S + sum_list (map padded_size (take k accessors))
                          + j * getComponentSize (accessors ! k)) ?view))
            = getComponentSize (accessors ! k)
        \<and> little_endian (take (getComponentSize (accessors ! k))
                  (drop (i * ?S + sum_list (map padded_size (take k accessors))
                          + j * getComponentSize (accessors ! k)) ?view))
            = (if getComponentType (accessors ! k) = FLOAT
               then unat (float32 ext
                      (array_get (getArray (accessors ! k)) (i * getElementSize (accessors ! k) + j)))
               else case array_get (getArray (accessors ! k)) (i * getElementSize (accessors ! k) + j) of
                      Undefined \<Rightarrow> 0
                    | Number r \<Rightarrow> nat ((if 0 \<le> r then \<lfloor>r\<rfloor> else \<lceil>r\<rceil>)
                                       mod 2 ^ (8 * getComponentSize (accessors ! k))))"
  proof (intro allI impI)
    fix k i j
    assume k: "k < length accessors" and i: "i < n" and j: "j < getElementSize (accessors ! k)"
    let ?a = "accessors ! k"
    let ?v = "array_get (getArray ?a) (i * getElementSize ?a + j)"
    let ?bs = "take (getComponentSize ?a)
                  (drop (i * ?S + sum_list (map padded_size (take k accessors))
                          + j * getComponentSize ?a) ?view)"
    from wf k have wfk: "well_formed_accessor ?a" by simp
    from comp k i j have c: "component_bytes ext (getComponentType ?a) ?v = Inr ?bs"
      by blast
    from component_bytes_wf [OF wfk, of ext ?v] obtain bs where
      "component_bytes ext (getComponentType ?a) ?v = Inr bs" "length bs = getComponentSize ?a"
      by blast
    with c have l: "length ?bs = getComponentSize ?a"
      by (simp only: sum.inject)
    from l component_bytes_little_endian [OF wfk c]
    show "length ?bs = getComponentSize ?a
        \<and> little_endian ?bs
            = (if getComponentType ?a = FLOAT then unat (float32 ext ?v)
               else case ?v of
                      Undefined \<Rightarrow> 0
                    | Number r \<Rightarrow> nat ((if 0 \<le> r then \<lfloor>r\<rfloor> else \<lceil>r\<rceil>)
                                       mod 2 ^ (8 * getComponentSize ?a)))"
      by (rule conjI)
  qed
  show ?thesis
    apply (rule exI [of _ ?r], rule exI [of _ ?s'], rule exI [of _ ?view], rule exI [of _ ?defs])
    apply (intro conjI)
            apply (rule run)
           apply simp
          apply simp
         apply (rule len)
        apply simp
       apply simp
      apply simp
     apply (rule offs)
    apply (rule bytes)
    done
qed

text \<open>The interleaved primitive of the specification: POSITION and NORMAL, both VEC3
  of 32-bit floats with count 3, give stride 24, length 72 and offsets 0 and 12.\<close>

theorem interleaveAccessors_layout_witness:
  "\<exists>r s'. interleaveAccessors sample_externals [position_accessor, normal_accessor] 0 0
             fresh_buffer_state = Inr (r, s')
     \<and> res_byteLength r = 72
     \<and> json_bufferViews s' = [\<lparr>bv_buffer = 0, bv_byteOffset = 0, bv_byteLength = 72,
                                bv_byteStride = Some 24, bv_target = Some 34962\<rparr>]
     \<and> map ad_byteOffset (json_accessors s') = [Some 0, Some 12]"
proof -
  have wf: "\<forall>a\<in>set [position_accessor, normal_accessor]. well_formed_accessor a"
    by (simp add: well_formed_accessor_def component_width_def position_accessor_def
        normal_accessor_def sample_accessor_def)
  have cnt: "\<forall>a\<in>set [position_accessor, normal_accessor]. getCount a = 3"
    by (simp add: position_accessor_def normal_accessor_def sample_accessor_def)
  have st: "byteStride_of [position_accessor, normal_accessor] = 24"
    by (simp add: byteStride_of_def padded_size_def padNumber_def position_accessor_def
        normal_accessor_def sample_accessor_def)
  have p0: "padded_size position_accessor = 12"
    by (simp add: padded_size_def padNumber_def position_accessor_def sample_accessor_def)
  from interleaveAccessors_layout [OF _ cnt wf, of sample_externals 0 0 fresh_buffer_state]
  obtain r s' view defs where
    run: "interleaveAccessors sample_externals [position_accessor, normal_accessor] 0 0
             fresh_buffer_state = Inr (r, s')"
    and r: "res_byteLength r = 3 * byteStride_of [position_accessor, normal_accessor]"
    and v: "json_bufferViews s' = json_bufferViews fresh_buffer_state @
         [\<lparr>bv_buffer = 0, bv_byteOffset = int 0,
           bv_byteLength = 3 * byteStride_of [position_accessor, normal_accessor],
           bv_byteStride = Some (byteStride_of [position_accessor, normal_accessor]),
           bv_target = Some ARRAY_BUFFER\<rparr>]"
    and a: "json_accessors s' = json_accessors fresh_buffer_state @ defs" "length defs = 2"
    and o: "\<forall>k<length [position_accessor, normal_accessor].
          defs ! k = (createAccessorDef ([position_accessor, normal_accessor] ! k))
             \<lparr>ad_bufferView := Some (length (json_bufferViews fresh_buffer_state)),
              ad_byteOffset := Some (sum_list (map padded_size
                 (take k [position_accessor, normal_accessor])))\<rparr>"
    by auto
  from o have o0: "ad_byteOffset (defs ! 0) = Some 0" by simp
  from o [rule_format, of 1] have o1: "ad_byteOffset (defs ! 1) = Some 12" by (simp add: p0)
  from a(2) obtain d0 d1 where defs: "defs = [d0, d1]"
    by (cases defs; cases "tl defs") auto
  show ?thesis
    using run r v a(1) o0 o1
    by (simp add: st defs fresh_buffer_state_def ARRAY_BUFFER_def)
qed

lemma foldE_append:
  "foldE f (xs @ ys) s = (case foldE f xs s of Inl e \<Rightarrow> Inl e | Inr s' \<Rightarrow> foldE f ys s')"
  by (induction xs arbitrary: s) (simp_all split: sum.splits)

lemma foldE_invariant:
  assumes "foldE f xs s = Inr s'" "P s"
    and "\<And>x t t'. x \<in> set xs \<Longrightarrow> P t \<Longrightarrow> f x t = Inr t' \<Longrightarrow> P t'"
  shows "P s'"
  using assms
proof (induction xs arbitrary: s)
  case Nil
  then show ?case by simp
next
  case (Cons x xs)
  from Cons.prems(1) obtain t where t: "f x s = Inr t" "foldE f xs t = Inr s'"
    by (auto split: sum.splits)
  have Pt: "P t" using Cons.prems(3) [OF _ Cons.prems(2) t(1)] by simp
  show ?case
  proof (rule Cons.IH [OF t(2) Pt])
    fix y u u'
    assume "y \<in> set xs" "P u" "f y u = Inr u'"
    then show "P u'" using Cons.prems(3) [of y u u'] by simp
  qed
qed

lemma foldE_fails:
  assumes "x \<in> set xs" "\<And>t. \<exists>e. f x t = Inl e"
  shows "\<exists>e. foldE f xs s = Inl e"
  using assms(1)
proof (induction xs arbitrary: s)
  case Nil
  then show ?case by simp
next
  case (Cons y ys)
  show ?case
  proof (cases "f y s")
    case (Inl e)
    then show ?thesis by simp
  next
    case (Inr t)
    show ?thesis
    proof (cases "x = y")
      case True
      with assms(2) [of s] Inr show ?thesis by simp
    next
      case False
      with Cons.prems have "x \<in> set ys" by simp
      from Cons.IH [OF this, of t] Inr show ?thesis by simp
    qed
  qed
qed

lemma length_pad: "length (pad b) = padNumber (length b)"
  by (simp add: pad_def padNumber_def)

lemma padNumber_dvd4: "4 dvd padNumber n"
  by (simp add: padNumber_def)

lemma concat_defs_result:
  "\<exists>m. concat_defs as buffers len s =
     (buffers @ map padded_blob as, len + length (concat (map padded_blob as)),
      s\<lparr>accessorIndexMap := m,
        json_accessors := json_accessors s @ concatenated_defs (length (json_bufferViews s)) len as\<rparr>)"
proof (induction as arbitrary: buffers len s)
  case Nil
  show ?case by (rule exI [of _ "accessorIndexMap s"]) simp
next
  case (Cons a as)
  let ?s1 = "s\<lparr>accessorIndexMap := (accessorIndexMap s)(acc_id a \<mapsto> length (json_accessors s)),
             json_accessors := json_accessors s @
               [(createAccessorDef a)\<lparr>ad_bufferView := Some (length (json_bufferViews s)),
                                       ad_byteOffset := Some len\<rparr>]\<rparr>"
  from Cons.IH [of "buffers @ [padded_blob a]" "len + length (padded_blob a)" ?s1] obtain m where
    "concat_defs as (buffers @ [padded_blob a]) (len + length (padded_blob a)) ?s1 =
       ((buffers @ [padded_blob a]) @ map padded_blob as,
        len + length (padded_blob a) + length (concat (map padded_blob as)),
        ?s1\<lparr>accessorIndexMap := m,
          json_accessors := json_accessors ?s1 @
            concatenated_defs (length (json_bufferViews ?s1)) (len + length (padded_blob a)) as\<rparr>)"
    by blast
  then show ?case
    by (intro exI [of _ m]) (simp add: Let_def padded_blob_def [symmetric] add.assoc)
qed

lemma strip_concatenated_defs:
  "map strip_def (concatenated_defs bv off as) = map createAccessorDef as"
  by (induction as arbitrary: off) (simp_all add: strip_def_def createAccessorDef_def)

lemma dvd4_blobs: "4 dvd length (concat (map padded_blob as))"
  by (induction as) (simp_all add: padded_blob_def length_pad padNumber_dvd4)

lemma concatAccessors_result:
  "\<exists>m ds. concatAccessors as bufferIndex off tgt s =
     (\<lparr>res_byteLength = length (concat (map padded_blob as)), res_buffers = map padded_blob as\<rparr>,
      s\<lparr>accessorIndexMap := m, json_accessors := json_accessors s @ ds,
        json_bufferViews := json_bufferViews s @
          [\<lparr>bv_buffer = bufferIndex, bv_byteOffset = int off,
            bv_byteLength = length (concat (map padded_blob as)), bv_byteStride = None,
            bv_target = (case tgt of None \<Rightarrow> None | Some t \<Rightarrow> if t \<noteq> 0 then Some t else None)\<rparr>]\<rparr>)
     \<and> map strip_def ds = map createAccessorDef as"
proof -
  from concat_defs_result [of as "[]" 0 s] obtain m where
    "concat_defs as [] 0 s =
     (map padded_blob as, length (concat (map padded_blob as)),
      s\<lparr>accessorIndexMap := m,
        json_accessors := json_accessors s @ concatenated_defs (length (json_bufferViews s)) 0 as\<rparr>)"
    by auto
  then show ?thesis
    by (intro exI [of _ m] exI [of _ "concatenated_defs (length (json_bufferViews s)) 0 as"])
       (simp add: concatAccessors_def Let_def strip_concatenated_defs)
qed

lemma length_view_write: "view_write v off bs = Inr v' \<Longrightarrow> length v' = length v"
  by (auto simp: view_write_def split: if_splits)

lemma length_write_component:
  "write_component ext a st i vbo j v = Inr v' \<Longrightarrow> length v' = length v"
  by (auto simp: write_component_def Let_def length_view_write split: sum.splits)

lemma length_write_accessor:
  assumes "write_accessor ext st i a (v, vbo) = Inr (v', vbo')"
  shows "length v' = length v"
proof -
  from assms obtain w where
    w: "foldE (write_component ext a st i vbo) [0..<getElementSize a] v = Inr w" and "v' = w"
    by (auto simp: write_accessor_def split: sum.splits)
  from foldE_invariant [OF w, of "\<lambda>x. length x = length v"] length_write_component
  have "length w = length v" by metis
  with \<open>v' = w\<close> show ?thesis by simp
qed

lemma length_write_vertex:
  assumes "write_vertex ext as st i v = Inr v'"
  shows "length v' = length v"
proof -
  from assms obtain vbo' where
    w: "foldE (write_accessor ext st i) as (v, 0) = Inr (v', vbo')"
    by (auto simp: write_vertex_def split: sum.splits)
  have "length (fst (v', vbo')) = length v"
  proof (rule foldE_invariant [OF w, of "\<lambda>p. length (fst p) = length v"])
    show "length (fst (v, 0::nat)) = length v" by simp
  next
    fix a t t'
    assume "length (fst t) = length v" "write_accessor ext st i a t = Inr t'"
    then show "length (fst t') = length v"
      using length_write_accessor [of ext st i a "fst t" "snd t" "fst t'" "snd t'"] by simp
  qed
  then show ?thesis by simp
qed

lemma length_write_vertices:
  assumes "foldE (write_vertex ext as st) is v = Inr v'"
  shows "length v' = length v"
  using foldE_invariant [OF assms, of "\<lambda>x. length x = length v"] length_write_vertex
  by metis

lemma strip_interleaved_defs:
  "map strip_def (interleaved_defs bv off as) = map createAccessorDef as"
  by (induction as arbitrary: off) (simp_all add: strip_def_def createAccessorDef_def)

lemma dvd4_byteStride: "4 dvd byteStride_of as"
  by (induction as) (simp_all add: byteStride_of_def padded_size_def padNumber_dvd4)

lemma interleaveAccessors_Inr:
  assumes "interleaveAccessors ext xs bufferIndex off s = Inr (r, s')"
  shows "\<exists>m ds view. xs \<noteq> []
     \<and> r = \<lparr>res_byteLength = getCount (hd xs) * byteStride_of xs, res_buffers = [view]\<rparr>
     \<and> length view = getCount (hd xs) * byteStride_of xs
     \<and> s' = s\<lparr>accessorIndexMap := m, json_accessors := json_accessors s @ ds,
              json_bufferViews := json_bufferViews s @
                [\<lparr>bv_buffer = bufferIndex, bv_byteOffset = int off,
                  bv_byteLength = getCount (hd xs) * byteStride_of xs,
                  bv_byteStride = Some (byteStride_of xs), bv_target = Some ARRAY_BUFFER\<rparr>]\<rparr>
     \<and> map strip_def ds = map createAccessorDef xs"
proof -
  from assms obtain a0 rest where xs: "xs = a0 # rest"
    by (cases xs) (auto simp: interleaveAccessors_def)
  let ?S = "byteStride_of xs"
  let ?n = "getCount a0"
  obtain m where d: "interleave_defs xs 0 s =
     (?S, s\<lparr>accessorIndexMap := m,
        json_accessors := json_accessors s @ interleaved_defs (length (json_bufferViews s)) 0 xs\<rparr>)"
    using interleave_defs_result [of xs 0 s] by auto
  from assms obtain view where
    w: "foldE (write_vertex ext xs ?S) [0..<?n] (replicate (?n * ?S) 0) = Inr view"
    and r: "r = \<lparr>res_byteLength = ?n * ?S, res_buffers = [view]\<rparr>"
    and s': "s' = s\<lparr>accessorIndexMap := m,
        json_accessors := json_accessors s @ interleaved_defs (length (json_bufferViews s)) 0 xs,
        json_bufferViews := json_bufferViews s @
                [\<lparr>bv_buffer = bufferIndex, bv_byteOffset = int off,
                  bv_byteLength = ?n * ?S,
                  bv_byteStride = Some ?S, bv_target = Some ARRAY_BUFFER\<rparr>]\<rparr>"
    unfolding interleaveAccessors_def xs list.case Let_def d [unfolded xs] prod.case
    by (auto split: sum.splits)
  from length_write_vertices [OF w] have lv: "length view = ?n * ?S" by simp
  have st: "map strip_def (interleaved_defs (length (json_bufferViews s)) 0 xs)
      = map createAccessorDef xs"
    by (rule strip_interleaved_defs)
  have h: "hd xs = a0" "xs \<noteq> []" by (simp_all add: xs)
  from r s' lv st h show ?thesis
    by (intro exI [of _ m] exI [of _ "interleaved_defs (length (json_bufferViews s)) 0 xs"]
          exI [of _ view]) simp
qed

lemma packed_start: "packed s bufferIndex ([], 0, s) [] []"
  by (simp add: packed_def)

lemma packed_concat:
  assumes "packed s bufferIndex p vs as"
  shows "\<exists>v. bv_target v = (case tgt of None \<Rightarrow> None | Some t \<Rightarrow> if t \<noteq> 0 then Some t else None)
     \<and> packed s bufferIndex (pack_concat xs bufferIndex tgt p)
          (vs @ (if xs \<noteq> [] then [v] else [])) (as @ xs)"
proof (cases "xs = []")
  case True
  with assms show ?thesis
    by (cases p) (auto simp: pack_concat_def intro: exI [of _ "\<lparr>bv_buffer = 0, bv_byteOffset = 0, bv_byteLength = 0, bv_byteStride = None, bv_target = (case tgt of None \<Rightarrow> None | Some t \<Rightarrow> if t \<noteq> 0 then Some t else None)\<rparr>"])
next
  case False
  obtain buffers len s1 where p: "p = (buffers, len, s1)" by (cases p)
  from concatAccessors_result [of xs bufferIndex len tgt s1] obtain m ds where
    c: "concatAccessors xs bufferIndex len tgt s1 =
     (\<lparr>res_byteLength = length (concat (map padded_blob xs)), res_buffers = map padded_blob xs\<rparr>,
      s1\<lparr>accessorIndexMap := m, json_accessors := json_accessors s1 @ ds,
        json_bufferViews := json_bufferViews s1 @
          [\<lparr>bv_buffer = bufferIndex, bv_byteOffset = int len,
            bv_byteLength = length (concat (map padded_blob xs)), bv_byteStride = None,
            bv_target = (case tgt of None \<Rightarrow> None | Some t \<Rightarrow> if t \<noteq> 0 then Some t else None)\<rparr>]\<rparr>)"
    and ds: "map strip_def ds = map createAccessorDef xs"
    by blast
  let ?v = "\<lparr>bv_buffer = bufferIndex, bv_byteOffset = int len,
            bv_byteLength = length (concat (map padded_blob xs)), bv_byteStride = None,
            bv_target = (case tgt of None \<Rightarrow> None | Some t \<Rightarrow> if t \<noteq> 0 then Some t else None)\<rparr>"
  from assms p obtain ds0 where
    a: "json_accessors s1 = json_accessors s @ ds0" "map strip_def ds0 = map createAccessorDef as"
    by (auto simp: packed_def)
  have "packed s bufferIndex (pack_concat xs bufferIndex tgt p) (vs @ [?v]) (as @ xs)"
    using assms False dvd4_blobs [of xs] a ds
    unfolding packed_def pack_concat_def p prod.case c
    by (auto intro!: exI [of _ "ds0 @ ds"])
  with False show ?thesis
    by (intro exI [of _ ?v]) simp
qed

lemma packed_primitive:
  assumes "packed s bufferIndex p vs as" "pack_primitive ext bufferIndex xs p = Inr p'"
  shows "\<exists>v. bv_target v = Some ARRAY_BUFFER
     \<and> packed s bufferIndex p' (vs @ (if xs \<noteq> [] then [v] else [])) (as @ xs)"
proof (cases "xs = []")
  case True
  with assms show ?thesis
    by (cases p) (auto simp: pack_primitive_def intro: exI [of _ "\<lparr>bv_buffer = 0, bv_byteOffset = 0, bv_byteLength = 0, bv_byteStride = None, bv_target = Some ARRAY_BUFFER\<rparr>"])
next
  case False
  obtain buffers len s1 where p: "p = (buffers, len, s1)" by (cases p)
  from assms(2) False obtain r s2 where
    i: "interleaveAccessors ext xs bufferIndex len s1 = Inr (r, s2)"
    and p': "p' = (buffers @ res_buffers r, len + res_byteLength r, s2)"
    by (auto simp: pack_primitive_def p split: sum.splits)
  from interleaveAccessors_Inr [OF i] obtain m ds view where
    r: "r = \<lparr>res_byteLength = getCount (hd xs) * byteStride_of xs, res_buffers = [view]\<rparr>"
    and lv: "length view = getCount (hd xs) * byteStride_of xs"
    and s2: "s2 = s1\<lparr>accessorIndexMap := m, json_accessors := json_accessors s1 @ ds,
              json_bufferViews := json_bufferViews s1 @
                [\<lparr>bv_buffer = bufferIndex, bv_byteOffset = int len,
                  bv_byteLength = getCount (hd xs) * byteStride_of xs,
                  bv_byteStride = Some (byteStride_of xs), bv_target = Some ARRAY_BUFFER\<rparr>]\<rparr>"
    and ds: "map strip_def ds = map createAccessorDef xs"
    by blast
  let ?v = "\<lparr>bv_buffer = bufferIndex, bv_byteOffset = int len,
                  bv_byteLength = getCount (hd xs) * byteStride_of xs,
                  bv_byteStride = Some (byteStride_of xs), bv_target = Some ARRAY_BUFFER\<rparr>"
  from assms(1) p obtain ds0 where
    a: "json_accessors s1 = json_accessors s @ ds0" "map strip_def ds0 = map createAccessorDef as"
    by (auto simp: packed_def)
  have "packed s bufferIndex p' (vs @ [?v]) (as @ xs)"
    using assms(1) dvd4_byteStride [of xs] a ds lv
    unfolding packed_def p p' r s2 prod.case
    by (auto intro!: exI [of _ "ds0 @ ds"])
  with False show ?thesis
    by (intro exI [of _ ?v]) simp
qed

lemma packed_primitives:
  assumes "packed s bufferIndex p vs as" "foldE (pack_primitive ext bufferIndex) gs p = Inr p'"
  shows "\<exists>vs'. map bv_target vs' = map (\<lambda>g. Some ARRAY_BUFFER) (filter (\<lambda>g. g \<noteq> []) gs)
     \<and> packed s bufferIndex p' (vs @ vs') (as @ concat gs)"
  using assms
proof (induction gs arbitrary: p vs as)
  case Nil
  then show ?case by simp
next
  case (Cons g gs)
  from Cons.prems(2) obtain p1 where
    1: "pack_primitive ext bufferIndex g p = Inr p1"
    and 2: "foldE (pack_primitive ext bufferIndex) gs p1 = Inr p'"
    by (auto split: sum.splits)
  from packed_primitive [OF Cons.prems(1) 1] obtain v where
    v: "bv_target v = Some ARRAY_BUFFER"
    and pk: "packed s bufferIndex p1 (vs @ (if g \<noteq> [] then [v] else [])) (as @ g)"
    by blast
  from Cons.IH [OF pk 2] obtain vs' where
    t: "map bv_target vs' = map (\<lambda>g. Some ARRAY_BUFFER) (filter (\<lambda>g. g \<noteq> []) gs)"
    and pk': "packed s bufferIndex p' ((vs @ (if g \<noteq> [] then [v] else [])) @ vs') ((as @ g) @ concat gs)"
    by blast
  show ?case
    using t v pk'
    by (intro exI [of _ "(if g \<noteq> [] then [v] else []) @ vs'"]) auto
qed

lemma pack_accessors_packed:
  assumes "pack_accessors ext u bufferIndex s = Inr p"
  shows "\<exists>vs. map bv_target vs = view_targets u
     \<and> packed s bufferIndex p vs (packed_accessors u)"
proof -
  let ?p0 = "pack_concat (indexAccessors u) bufferIndex (Some ELEMENT_ARRAY_BUFFER) ([], 0, s)"
  from assms obtain p1 where
    1: "foldE (pack_primitive ext bufferIndex) (map snd (attributeAccessors u)) ?p0 = Inr p1"
    and 2: "p = pack_concat (otherAccessors u) bufferIndex None p1"
    by (auto simp: pack_accessors_def split: sum.splits)
  from packed_concat [OF packed_start, of "Some ELEMENT_ARRAY_BUFFER" s bufferIndex "indexAccessors u"]
  obtain v0 where v0: "bv_target v0 = Some ELEMENT_ARRAY_BUFFER"
    and k0: "packed s bufferIndex ?p0 (if indexAccessors u \<noteq> [] then [v0] else []) (indexAccessors u)"
    by (auto simp: ELEMENT_ARRAY_BUFFER_def)
  from packed_primitives [OF k0 1] obtain vs1 where
    t1: "map bv_target vs1 = map (\<lambda>g. Some ARRAY_BUFFER)
           (filter (\<lambda>g. g \<noteq> []) (map snd (attributeAccessors u)))"
    and k1: "packed s bufferIndex p1 ((if indexAccessors u \<noteq> [] then [v0] else []) @ vs1)
           (indexAccessors u @ concat (map snd (attributeAccessors u)))"
    by blast
  from packed_concat [OF k1, of None "otherAccessors u"] obtain v2 where
    v2: "bv_target v2 = None"
    and k2: "packed s bufferIndex p
        (((if indexAccessors u \<noteq> [] then [v0] else []) @ vs1)
           @ (if otherAccessors u \<noteq> [] then [v2] else []))
        ((indexAccessors u @ concat (map snd (attributeAccessors u))) @ otherAccessors u)"
    unfolding 2 by auto
  show ?thesis
    using v0 t1 v2 k2
    by (intro exI [of _ "((if indexAccessors u \<noteq> [] then [v0] else []) @ vs1)
           @ (if otherAccessors u \<noteq> [] then [v2] else [])"])
       (auto simp: view_targets_def packed_accessors_def)
qed

lemma same_but_offset_refl: "same_but_offset v v"
  by (simp add: same_but_offset_def)

lemma same_but_offset_trans:
  "same_but_offset a b \<Longrightarrow> same_but_offset b c \<Longrightarrow> same_but_offset a c"
  by (cases a, cases b, cases c) (auto simp: same_but_offset_def)

lemma list_all2_same_refl: "list_all2 same_but_offset xs xs"
  by (simp add: list_all2_refl same_but_offset_refl)

lemma list_all2_same_trans:
  "list_all2 same_but_offset xs ys \<Longrightarrow> list_all2 same_but_offset ys zs
     \<Longrightarrow> list_all2 same_but_offset xs zs"
  by (rule list_all2_trans [of same_but_offset same_but_offset same_but_offset])
     (auto intro: same_but_offset_trans)

lemma images_appended_refl: "images_appended n p p"
  by (cases p) (simp add: images_appended_def list_all2_same_refl)

lemma images_appended_trans:
  "images_appended n p q \<Longrightarrow> images_appended n q r \<Longrightarrow> images_appended n p r"
  by (cases p, cases q, cases r)
     (auto simp: images_appended_def intro: list_all2_same_trans)

lemma update_offset_same:
  assumes "k < n"
  shows "list_all2 same_but_offset (take n xs) (take n (xs[k := (xs ! k)\<lparr>bv_byteOffset := off\<rparr>]))"
    and "drop n (xs[k := v]) = drop n xs"
proof -
  show "list_all2 same_but_offset (take n xs) (take n (xs[k := (xs ! k)\<lparr>bv_byteOffset := off\<rparr>]))"
  proof -
    have "same_but_offset (xs ! i) (xs[k := (xs ! k)\<lparr>bv_byteOffset := off\<rparr>] ! i)"
      if "i < length xs" for i
      using that by (cases "i = k") (simp_all add: same_but_offset_def)
    then show ?thesis
      unfolding list_all2_conv_all_nth by simp
  qed
  show "drop n (xs[k := v]) = drop n xs"
    using assms by simp
qed

lemma append_image_step:
  assumes below: "image_views_below n images"
    and st: "append_image images imageData i p = Inr p'"
  shows "images_appended n p p'"
proof -
  obtain buffers len s1 where p: "p = (buffers, len, s1)" by (cases p)
  from st p obtain k where i: "i < length images" "i < length imageData"
    and k: "img_bufferView (images ! i) = Some k" "k < length (json_bufferViews s1)"
    and p': "p' = (buffers @ [imageData ! i], len + length (imageData ! i),
                   s1\<lparr>json_bufferViews := (json_bufferViews s1)
                       [k := (json_bufferViews s1 ! k)\<lparr>bv_byteOffset := int len\<rparr>]\<rparr>)"
    by (auto simp: append_image_def split: if_splits option.splits)
  from below i(1) k(1) have "k < n"
    by (auto simp: image_views_below_def)
  from update_offset_same [OF this] show ?thesis
    by (simp add: images_appended_def p p')
qed

lemma append_images_result:
  assumes below: "image_views_below n images"
    and st: "foldE (append_image images imageData) is p = Inr p'"
  shows "images_appended n p p'"
proof (rule foldE_invariant [OF st, of "images_appended n p"])
  show "images_appended n p p" by (rule images_appended_refl)
next
  fix i t t'
  assume "images_appended n p t" "append_image images imageData i t = Inr t'"
  then show "images_appended n p t'"
    using append_image_step [OF below] images_appended_trans by blast
qed

text \<open>What the first half of the per-buffer callback does on success.\<close>

lemma pack_buffer_Inr:
  assumes below: "image_views_below n images"
    and n: "n \<le> length (json_bufferViews s)"
    and pk: "pack_buffer ext links images imageData b s = Inr (buffers, len, s1)"
  shows "\<exists>u vs ds. foldE (categorize links) (bufferParents b) empty_usage = Inr u
     \<and> map bv_target vs = view_targets u
     \<and> (\<forall>v\<in>set vs. bv_buffer v = length (json_buffers s) \<and> 4 dvd bv_byteOffset v)
     \<and> list_all2 same_but_offset (take n (json_bufferViews s)) (take n (json_bufferViews s1))
     \<and> drop n (json_bufferViews s1) = drop n (json_bufferViews s) @ vs
     \<and> json_accessors s1 = json_accessors s @ ds
     \<and> map strip_def ds = map createAccessorDef (packed_accessors u)
     \<and> json_buffers s1 = json_buffers s \<and> resources s1 = resources s
     \<and> bufferURIGenerator s1 = bufferURIGenerator s \<and> logged s1 = logged s
     \<and> len = length (concat buffers)"
proof -
  from pk obtain u p0 where
    u: "foldE (categorize links) (bufferParents b) empty_usage = Inr u"
    and p0: "pack_accessors ext u (length (json_buffers s)) s = Inr p0"
    and im: "foldE (append_image images imageData) [0..<length imageData] p0 = Inr (buffers, len, s1)"
    by (auto simp: pack_buffer_def split: sum.splits)
  from pack_accessors_packed [OF p0] obtain vs where
    t: "map bv_target vs = view_targets u"
    and k: "packed s (length (json_buffers s)) p0 vs (packed_accessors u)"
    by blast
  obtain b0 l0 s0 where p0e: "p0 = (b0, l0, s0)" by (cases p0)
  from k p0e obtain ds where
    f: "json_buffers s0 = json_buffers s" "resources s0 = resources s"
       "bufferURIGenerator s0 = bufferURIGenerator s" "logged s0 = logged s"
       "json_bufferViews s0 = json_bufferViews s @ vs"
       "json_accessors s0 = json_accessors s @ ds"
       "map strip_def ds = map createAccessorDef (packed_accessors u)"
       "l0 = length (concat b0)"
       "\<forall>v\<in>set vs. bv_buffer v = length (json_buffers s) \<and> 4 dvd bv_byteOffset v"
    by (auto simp: packed_def)
  from append_images_result [OF below im] p0e have
    g: "json_buffers s1 = json_buffers s0" "resources s1 = resources s0"
       "bufferURIGenerator s1 = bufferURIGenerator s0" "logged s1 = logged s0"
       "json_accessors s1 = json_accessors s0"
       "len = length (concat buffers)"
       "list_all2 same_but_offset (take n (json_bufferViews s0)) (take n (json_bufferViews s1))"
       "drop n (json_bufferViews s1) = drop n (json_bufferViews s0)"
    using f(8) by (auto simp: images_appended_def)
  from g(7) n f(5) have
    "list_all2 same_but_offset (take n (json_bufferViews s)) (take n (json_bufferViews s1))"
    by simp
  moreover from g(8) n f(5) have "drop n (json_bufferViews s1) = drop n (json_bufferViews s) @ vs"
    by simp
  ultimately show ?thesis
    using u t f g by (intro exI [of _ u] exI [of _ vs] exI [of _ ds]) simp
qed

lemma emit_buffer_fields:
  "json_accessors (emit_buffer ext options b (buffers, len, s)) = json_accessors s"
  "json_bufferViews (emit_buffer ext options b (buffers, len, s)) = json_bufferViews s"
  "logged (emit_buffer ext options b (buffers, len, s)) = logged s"
  "\<exists>d. json_buffers (emit_buffer ext options b (buffers, len, s)) = json_buffers s @ [d]
       \<and> bd_prop d = createPropertyDef b \<and> bd_byteLength d = len"
  by (auto simp: emit_buffer_def split: prod.splits)

lemma write_buffer_cases:
  assumes "write_buffer ext options links images imageData b s = Inr s'"
  obtains buffers len s1 where
    "pack_buffer ext links images imageData b s = Inr (buffers, len, s1)"
    "len = 0 \<longrightarrow> s' = s1\<lparr>logged := logged s1 @ [empty_buffer_warning ext b]\<rparr>"
    "len \<noteq> 0 \<longrightarrow> s' = emit_buffer ext options b (buffers, len, s1)"
  using assms by (auto simp: write_buffer_def split: sum.splits if_splits)

lemma write_buffer_Inr:
  assumes below: "image_views_below n images"
    and n: "n \<le> length (json_bufferViews s)"
    and w: "write_buffer ext options links images imageData b s = Inr s'"
  shows "\<exists>vs ds. map bv_target vs = view_targets (usage_of links b)
     \<and> (\<forall>v\<in>set vs. bv_buffer v = length (json_buffers s) \<and> 4 dvd bv_byteOffset v)
     \<and> list_all2 same_but_offset (take n (json_bufferViews s)) (take n (json_bufferViews s'))
     \<and> drop n (json_bufferViews s') = drop n (json_bufferViews s) @ vs
     \<and> json_accessors s' = json_accessors s @ ds
     \<and> map strip_def ds = map createAccessorDef (packed_accessors (usage_of links b))
     \<and> (json_buffers s' = json_buffers s
          \<or> (\<exists>d. json_buffers s' = json_buffers s @ [d] \<and> bd_prop d = createPropertyDef b))"
proof -
  from w obtain buffers len s1 where
    pk: "pack_buffer ext links images imageData b s = Inr (buffers, len, s1)"
    and skip: "len = 0 \<longrightarrow> s' = s1\<lparr>logged := logged s1 @ [empty_buffer_warning ext b]\<rparr>"
    and emit: "len \<noteq> 0 \<longrightarrow> s' = emit_buffer ext options b (buffers, len, s1)"
    by (rule write_buffer_cases)
  from pack_buffer_Inr [OF below n pk] obtain u vs ds where
    u: "foldE (categorize links) (bufferParents b) empty_usage = Inr u"
    and f: "map bv_target vs = view_targets u"
      "\<forall>v\<in>set vs. bv_buffer v = length (json_buffers s) \<and> 4 dvd bv_byteOffset v"
      "list_all2 same_but_offset (take n (json_bufferViews s)) (take n (json_bufferViews s1))"
      "drop n (json_bufferViews s1) = drop n (json_bufferViews s) @ vs"
      "json_accessors s1 = json_accessors s @ ds"
      "map strip_def ds = map createAccessorDef (packed_accessors u)"
      "json_buffers s1 = json_buffers s"
    by blast
  from u have uo: "usage_of links b = u" by (simp add: usage_of_def)
  have v: "json_bufferViews s' = json_bufferViews s1" "json_accessors s' = json_accessors s1"
    using skip emit emit_buffer_fields(1,2) [of ext options b buffers len s1]
    by (cases "len = 0"; simp)+
  have b: "json_buffers s' = json_buffers s
          \<or> (\<exists>d. json_buffers s' = json_buffers s @ [d] \<and> bd_prop d = createPropertyDef b)"
    using skip emit emit_buffer_fields(4) [of ext options b buffers len s1] f(7)
    by (cases "len = 0") auto
  from f b show ?thesis
    unfolding uo v
    by (intro exI [of _ vs] exI [of _ ds]) simp
qed

lemma write_image_ok:
  assumes "images_ok options s"
  shows "images_ok options (write_image options t i s)"
    and "map img_prop (ist_images (write_image options t i s))
           = map img_prop (ist_images s) @ [createPropertyDef t]"
  using assms
  by (auto simp: images_ok_def write_image_def Let_def image_views_below_def
      split: prod.splits)

lemma write_images_ok:
  assumes "images_ok options s"
  shows "images_ok options (write_images options ts i s)
     \<and> map img_prop (ist_images (write_images options ts i s))
           = map img_prop (ist_images s) @ map createPropertyDef ts"
  using assms
proof (induction ts arbitrary: i s)
  case Nil
  then show ?case by simp
next
  case (Cons t ts)
  note ok1 = write_image_ok(1) [OF Cons.prems, of t i]
  from Cons.IH [OF ok1, of "Suc i"] write_image_ok(2) [OF Cons.prems, of t i]
  show ?case by simp
qed

lemma write_textures_ok:
  "images_ok options (write_textures doc options)"
  "map img_prop (ist_images (write_textures doc options))
     = map createPropertyDef (listTextures doc)"
proof -
  let ?s0 = "\<lparr>ist_images = [], ist_bufferViews = [], ist_imageData = [], ist_resources = [],
       ist_imageIndexMap = Map.empty,
       imageURIGenerator = \<lparr>counter = 1, multiple = (length (listTextures doc) > 1),
                             gen_basename = basename options\<rparr>\<rparr>"
  have "images_ok options ?s0"
    by (simp add: images_ok_def image_views_below_def)
  from write_images_ok [OF this, of "listTextures doc" 0]
  show "images_ok options (write_textures doc options)"
    "map img_prop (ist_images (write_textures doc options))
     = map createPropertyDef (listTextures doc)"
    by (simp_all add: write_textures_def)
qed

lemma written_step:
  assumes below: "image_views_below (length imgs) images"
    and inv: "written links imgs bs s"
    and w: "write_buffer ext options links images imageData b s = Inr s'"
  shows "written links imgs (bs @ [b]) s'"
proof -
  let ?n = "length imgs"
  from inv have n: "?n \<le> length (json_bufferViews s)"
    and same: "list_all2 same_but_offset imgs (take ?n (json_bufferViews s))"
    and dv: "\<forall>v\<in>set (drop ?n (json_bufferViews s)). 4 dvd bv_byteOffset v"
    and acc: "map strip_def (json_accessors s)
       = map createAccessorDef (concat (map (\<lambda>b. packed_accessors (usage_of links b)) bs))"
    by (simp_all add: written_def)
  from inv obtain vss where vss: "drop ?n (json_bufferViews s) = concat vss"
      "map (map bv_target) vss = map (\<lambda>b. view_targets (usage_of links b)) bs"
    by (auto simp: written_def)
  from inv obtain bs' where bs': "subseq bs' bs"
      "map bd_prop (json_buffers s) = map createPropertyDef bs'"
    by (auto simp: written_def)
  from write_buffer_Inr [OF below n w] obtain vs ds where
    f: "map bv_target vs = view_targets (usage_of links b)"
      "\<forall>v\<in>set vs. bv_buffer v = length (json_buffers s) \<and> 4 dvd bv_byteOffset v"
      "list_all2 same_but_offset (take ?n (json_bufferViews s)) (take ?n (json_bufferViews s'))"
      "drop ?n (json_bufferViews s') = drop ?n (json_bufferViews s) @ vs"
      "json_accessors s' = json_accessors s @ ds"
      "map strip_def ds = map createAccessorDef (packed_accessors (usage_of links b))"
      "json_buffers s' = json_buffers s
          \<or> (\<exists>d. json_buffers s' = json_buffers s @ [d] \<and> bd_prop d = createPropertyDef b)"
    by blast
  have len: "length (take ?n (json_bufferViews s)) = length (take ?n (json_bufferViews s'))"
    using f(3) by (rule list_all2_lengthD)
  with n have 1: "?n \<le> length (json_bufferViews s')" by simp
  have 2: "list_all2 same_but_offset imgs (take ?n (json_bufferViews s'))"
    using same f(3) by (rule list_all2_same_trans)
  have 3: "\<exists>vss'. drop ?n (json_bufferViews s') = concat vss'
         \<and> map (map bv_target) vss' = map (\<lambda>b. view_targets (usage_of links b)) (bs @ [b])"
    using vss f(1,4) by (intro exI [of _ "vss @ [vs]"]) simp
  have 4: "\<forall>v\<in>set (drop ?n (json_bufferViews s')). 4 dvd bv_byteOffset v"
    using dv f(2,4) by auto
  have 5: "map strip_def (json_accessors s')
       = map createAccessorDef (concat (map (\<lambda>b. packed_accessors (usage_of links b)) (bs @ [b])))"
    using acc f(5,6) by simp
  have 6: "\<exists>bs''. subseq bs'' (bs @ [b]) \<and> map bd_prop (json_buffers s') = map createPropertyDef bs''"
  proof -
    from f(7) show ?thesis
    proof
      assume "json_buffers s' = json_buffers s"
      with bs' show ?thesis
        by (intro exI [of _ bs']) (simp add: subseq_rev_drop_many)
    next
      assume "\<exists>d. json_buffers s' = json_buffers s @ [d] \<and> bd_prop d = createPropertyDef b"
      with bs' show ?thesis
        by (intro exI [of _ "bs' @ [b]"]) (auto intro: list_emb_append_mono)
    qed
  qed
  from 1 2 3 4 5 6 show ?thesis
    unfolding written_def by blast
qed

lemma written_fold:
  assumes below: "image_views_below (length imgs) images"
    and inv: "written links imgs bs s"
    and w: "foldE (write_buffer ext options links images imageData) bs2 s = Inr s'"
  shows "written links imgs (bs @ bs2) s'"
  using inv w
proof (induction bs2 arbitrary: bs s)
  case Nil
  then show ?case by simp
next
  case (Cons b bs2)
  from Cons.prems(2) obtain s1 where
    1: "write_buffer ext options links images imageData b s = Inr s1"
    and 2: "foldE (write_buffer ext options links images imageData) bs2 s1 = Inr s'"
    by (auto split: sum.splits)
  from Cons.IH [OF written_step [OF below Cons.prems(1) 1] 2]
  show ?case by simp
qed

lemma written_initial:
  "written links (ist_bufferViews (write_textures doc options)) [] (initial_buffer_state doc options)"
  by (simp add: written_def initial_buffer_state_def list_all2_same_refl)

lemma write_buffers_written:
  assumes "write_buffers ext doc options = Inr s"
  shows "written (gather_links (getLinks doc) Map.empty)
           (ist_bufferViews (write_textures doc options)) (listBuffers doc) s"
proof -
  have below: "image_views_below (length (ist_bufferViews (write_textures doc options)))
      (ist_images (write_textures doc options))"
    using write_textures_ok(1) [of options doc] by (simp add: images_ok_def)
  from written_fold [OF below written_initial assms [unfolded write_buffers_def buffer_step_def]]
  show ?thesis by simp
qed

section \<open>Evaluating the writer on sample documents\<close>

lemmas writer_eval =
  GLTFWriter_write_def write_buffers_def buffer_step_def initial_buffer_state_def
  write_textures_def write_image_def createPropertyDef_def write_buffer_def pack_buffer_def
  bufferParents_def categorize_def accessorRefs_of_def empty_usage_def set_add_def
  pack_accessors_def pack_concat_def pack_primitive_def concatAccessors_def
  createAccessorDef_def pad_def padNumber_def append_image_def emit_buffer_def GLB_BUFFER_def
  ELEMENT_ARRAY_BUFFER_def root_json_def write_all_materials_def clean_def Let_def
  createURI_def empty_buffer_warning_def

lemmas sample_defs =
  empty_document_def sample_buffer_def byte_accessor_def sample_texture_def glb_options_def
  sample_externals_def external_options_def UNSIGNED_BYTE_def


section \<open>The arrays of the written document\<close>

lemma write_materials_props:
  "map md_prop (fst (write_materials imap ms s)) = map createPropertyDef ms"
proof (induction ms arbitrary: s)
  case Nil
  show ?case by simp
next
  case (Cons m ms)
  obtain d s1 where 1: "write_material imap m s = (d, s1)" by (cases "write_material imap m s")
  obtain ds s2 where 2: "write_materials imap ms s1 = (ds, s2)"
    by (cases "write_materials imap ms s1")
  from 1 have "md_prop d = createPropertyDef m"
    by (auto simp: write_material_def split: prod.splits)
  with Cons.IH [of s1] 1 2 show ?case by simp
qed

lemma written_documents:
  assumes "GLTFWriter_write ext doc options = Inr (nd, w)"
  obtains s where "write_buffers ext doc options = Inr s"
    "accessors_of nd = json_accessors s" "bufferViews_of nd = json_bufferViews s"
    "buffers_of nd = json_buffers s" "images_of nd = ist_images (write_textures doc options)"
    "nd_resources nd = resources s" "w = logged s"
proof -
  from assms obtain s where s: "write_buffers ext doc options = Inr s"
    "json nd = clean (root_json doc options s)" "nd_resources nd = resources s" "w = logged s"
    by (rule write_Inr_json)
  note c = clean_root_json_arrays [of doc options s]
  show ?thesis
    by (rule that [OF s(1) _ _ _ _ s(3) s(4)])
       (simp_all add: accessors_of_def bufferViews_of_def buffers_of_def images_of_def s(2) c)
qed

section \<open>Alignment of the buffer views, and the image bytes\<close>

lemma image_first_run:
  "GLTFWriter_write sample_externals image_first_document glb_options
     = Inr (image_first_native, [])"
  by (simp add: writer_eval sample_defs image_first_document_def image_first_native_def)

lemma image_view_count_eq:
  "length (ist_bufferViews (write_textures doc options)) = image_view_count doc options"
proof -
  have "length (map img_prop (ist_images (write_textures doc options)))
      = length (map createPropertyDef (listTextures doc))"
    by (simp only: write_textures_ok(2))
  then have "length (ist_images (write_textures doc options)) = length (listTextures doc)"
    by simp
  with write_textures_ok(1) [where doc = doc and options = options] show ?thesis
    by (auto simp: images_ok_def image_view_count_def)
qed

text \<open>C5, as amended. In every document that is written, each buffer view that packs
  accessors (every view after those reserved for images) has a \<open>byteOffset\<close> that is
  a multiple of 4. The views of images take the running byte length of the buffer,
  which the image bytes before them need not leave at a multiple of 4.\<close>

theorem accessor_views_aligned:
  assumes "GLTFWriter_write ext doc options = Inr (nd, w)"
  shows "\<forall>v\<in>set (drop (image_view_count doc options) (bufferViews_of nd)). 4 dvd bv_byteOffset v"
proof -
  from assms obtain s where s: "write_buffers ext doc options = Inr s"
    and r: "bufferViews_of nd = json_bufferViews s"
    by (rule written_documents)
  note wr = write_buffers_written [OF s]
  from wr show ?thesis
    by (simp add: written_def r image_view_count_eq)
qed

theorem accessor_views_aligned_witness:
  "case GLTFWriter_write sample_externals image_first_document glb_options of
     Inl e \<Rightarrow> False
   | Inr (nd, w) \<Rightarrow> 4 dvd bv_byteOffset (bufferViews_of nd ! 1)
        \<and> 4 dvd bv_byteOffset (bufferViews_of nd ! 2)"
proof -
  have cnt: "image_view_count image_first_document glb_options = 1"
    by (simp add: image_view_count_def image_first_document_def empty_document_def glb_options_def)
  have len: "length (bufferViews_of image_first_native) = 3"
    by (simp add: bufferViews_of_def image_first_native_def)
  from accessor_views_aligned [OF image_first_run]
  have a: "\<forall>v\<in>set (drop 1 (bufferViews_of image_first_native)). 4 dvd bv_byteOffset v"
    unfolding cnt .
  have m1: "drop 1 (bufferViews_of image_first_native) ! 0
      \<in> set (drop 1 (bufferViews_of image_first_native))"
    by (rule nth_mem) (simp add: len)
  have m2: "drop 1 (bufferViews_of image_first_native) ! 1
      \<in> set (drop 1 (bufferViews_of image_first_native))"
    by (rule nth_mem) (simp add: len)
  from a [rule_format, OF m1] a [rule_format, OF m2] show ?thesis
    unfolding image_first_run by (simp add: len numeral_2_eq_2)
qed

text \<open>A GLB document with one buffer and two images of 1 and 2 bytes is written, and
  the view of the second image starts at byte 1.\<close>

theorem unaligned_image_view_counterexample:
  "GLTFWriter_write sample_externals unaligned_images_document glb_options
     = Inr (unaligned_images_native, [])
   \<and> bv_byteOffset (bufferViews_of unaligned_images_native ! 1) = 1
   \<and> \<not> 4 dvd bv_byteOffset (bufferViews_of unaligned_images_native ! 1)"
  by (simp add: writer_eval sample_defs unaligned_images_document_def unaligned_images_native_def
      bufferViews_of_def)

text \<open>C2. A document with two buffers (accessors of 4 and of 8 bytes) and one image
  of 3 bytes, written in embedded mode: the image bytes 7, 8, 9 are appended to the
  bytes of both buffers, so that the second buffer has 11 bytes instead of the 8 of
  its accessor, and the view of the image, which names buffer 0, gets the offset 8 of
  the image within the second buffer (in buffer 0 the image lies at offset 4).\<close>

theorem image_bytes_in_every_buffer:
  "GLTFWriter_write ext two_buffers_document embedded_options = Inr (two_buffers_native ext, [])"
  by (simp add: writer_eval sample_defs two_buffers_document_def two_buffers_native_def
      embedded_options_def)

lemma append_image_frame:
  assumes "append_image images imageData i (buffers, len, s) = Inr (buffers', len', s')"
  shows "json_buffers s' = json_buffers s \<and> resources s' = resources s
     \<and> bufferURIGenerator s' = bufferURIGenerator s \<and> logged s' = logged s
     \<and> (len = length (concat buffers) \<longrightarrow> len' = length (concat buffers'))"
  using assms by (auto simp: append_image_def split: if_splits option.splits)

lemma pack_buffer_frame:
  assumes "pack_buffer ext links images imageData b s = Inr (buffers, len, s1)"
  shows "json_buffers s1 = json_buffers s \<and> resources s1 = resources s
     \<and> bufferURIGenerator s1 = bufferURIGenerator s \<and> logged s1 = logged s
     \<and> len = length (concat buffers)"
proof -
  from assms obtain u p0 where
    p0: "pack_accessors ext u (length (json_buffers s)) s = Inr p0"
    and im: "foldE (append_image images imageData) [0..<length imageData] p0 = Inr (buffers, len, s1)"
    by (auto simp: pack_buffer_def split: sum.splits)
  from pack_accessors_packed [OF p0] obtain vs where
    k: "packed s (length (json_buffers s)) p0 vs (packed_accessors u)"
    by blast
  let ?P = "\<lambda>p. case p of (bs, l, t) \<Rightarrow> json_buffers t = json_buffers s \<and> resources t = resources s
     \<and> bufferURIGenerator t = bufferURIGenerator s \<and> logged t = logged s
     \<and> l = length (concat bs)"
  have "?P (buffers, len, s1)"
  proof (rule foldE_invariant [OF im, of ?P])
    show "?P p0" using k by (cases p0) (auto simp: packed_def)
  next
    fix i t t'
    assume "?P t" "append_image images imageData i t = Inr t'"
    then show "?P t'"
      using append_image_frame [of images imageData i "fst t" "fst (snd t)" "snd (snd t)"
          "fst t'" "fst (snd t')" "snd (snd t')"]
      by (cases t, cases t') auto
  qed
  then show ?thesis by simp
qed

lemma logged_grows:
  assumes "foldE (buffer_step ext doc options) bs t = Inr t'"
  shows "set (logged t) \<subseteq> set (logged t')"
proof (rule foldE_invariant [OF assms, of "\<lambda>x. set (logged t) \<subseteq> set (logged x)"])
  show "set (logged t) \<subseteq> set (logged t)" by simp
next
  fix b u u'
  assume a: "set (logged t) \<subseteq> set (logged u)" "buffer_step ext doc options b u = Inr u'"
  from a(2) obtain buffers len s1 where
    pk: "pack_buffer ext (gather_links (getLinks doc) Map.empty)
           (ist_images (write_textures doc options))
           (ist_imageData (write_textures doc options)) b u = Inr (buffers, len, s1)"
    and skip: "len = 0 \<longrightarrow> u' = s1\<lparr>logged := logged s1 @ [empty_buffer_warning ext b]\<rparr>"
    and emit: "len \<noteq> 0 \<longrightarrow> u' = emit_buffer ext options b (buffers, len, s1)"
    unfolding buffer_step_def by (rule write_buffer_cases)
  from pack_buffer_frame [OF pk] have "logged s1 = logged u" by simp
  with skip emit emit_buffer_fields(3) [of ext options b buffers len s1] a(1)
  show "set (logged t) \<subseteq> set (logged u')"
    by (cases "len = 0") auto
qed

section \<open>Accessors in more than one role\<close>

lemma foldE_error:
  assumes "foldE f xs s = Inl e" "P s"
    and "\<And>x t t'. x \<in> set xs \<Longrightarrow> P t \<Longrightarrow> f x t = Inr t' \<Longrightarrow> P t'"
    and "\<And>x t e'. x \<in> set xs \<Longrightarrow> P t \<Longrightarrow> f x t = Inl e' \<Longrightarrow> Q e'"
  shows "Q e"
  using assms
proof (induction xs arbitrary: s)
  case Nil
  then show ?case by simp
next
  case (Cons x xs)
  show ?case
  proof (cases "f x s")
    case (Inl e')
    with Cons.prems(1) have "e' = e" by simp
    with Cons.prems(4) [of x s e'] Cons.prems(2) Inl show ?thesis by simp
  next
    case (Inr t)
    with Cons.prems(1) have r: "foldE f xs t = Inl e" by simp
    have Pt: "P t" using Cons.prems(3) [of x s t] Cons.prems(2) Inr by simp
    show ?thesis
    proof (rule Cons.IH [OF r Pt])
      fix y u u' assume "y \<in> set xs" "P u" "f y u = Inr u'"
      then show "P u'" using Cons.prems(3) [of y u u'] by simp
    next
      fix y u e' assume "y \<in> set xs" "P u" "f y u = Inl e'"
      then show "Q e'" using Cons.prems(4) [of y u e'] by simp
    qed
  qed
qed

lemma foldE_succeeds:
  assumes "P s"
    and "\<And>x t. x \<in> set xs \<Longrightarrow> P t \<Longrightarrow> \<exists>t'. f x t = Inr t' \<and> P t'"
  shows "\<exists>s'. foldE f xs s = Inr s' \<and> P s'"
  using assms
proof (induction xs arbitrary: s)
  case Nil
  then show ?case by simp
next
  case (Cons x xs)
  from Cons.prems(2) [of x s] Cons.prems(1) obtain t where t: "f x s = Inr t" "P t" by auto
  have "\<exists>s'. foldE f xs t = Inr s' \<and> P s'"
  proof (rule Cons.IH [OF t(2)])
    fix y u assume "y \<in> set xs" "P u"
    then show "\<exists>t'. f y u = Inr t' \<and> P t'" using Cons.prems(2) [of y u] by simp
  qed
  with t(1) show ?case by simp
qed

lemma categorize_overlap:
  assumes "roles_overlap (accessorRefs_of links a)"
  shows "categorize links (ParentAccessor a) u
           = Inl AttributeOrIndexAccessorsMustBeUsedOnlyForThatPurpose"
  using assms
  by (auto simp: categorize_def roles_overlap_def Let_def split: prod.splits)

lemma categorize_error:
  assumes "categorize links (ParentAccessor a) u = Inl e"
  shows "e = AttributeOrIndexAccessorsMustBeUsedOnlyForThatPurpose"
proof -
  obtain isA isI isO
    where fl: "link_flags (accessorRefs_of links a) (False, False, False) = (isA, isI, isO)"
    by (cases "link_flags (accessorRefs_of links a) (False, False, False)")
  show ?thesis
  proof (cases "accessorRefs_of links a")
    case Nil
    with assms show ?thesis
      by (simp add: categorize_def Let_def)
  next
    case (Cons l ls)
    with assms fl show ?thesis
      by (auto simp: categorize_def Let_def split: if_splits)
  qed
qed

lemma update_values:
  "set (map snd (AList.update k v al)) \<subseteq> insert v (set (map snd al))"
  by (induction al) auto

lemma categorize_usage_wf:
  assumes "well_formed_accessor a" "usage_wf u" "categorize links (ParentAccessor a) u = Inr u'"
  shows "usage_wf u'"
proof -
  have old: "\<forall>x\<in>set (case map_of (attributeAccessors u) k of None \<Rightarrow> [] | Some xs \<Rightarrow> xs).
      well_formed_accessor x" for k
  proof (cases "map_of (attributeAccessors u) k")
    case None
    then show ?thesis by simp
  next
    case (Some xs)
    then have "xs \<in> set (map snd (attributeAccessors u))"
      by (force dest: map_of_SomeD)
    with assms(2) Some show ?thesis by (auto simp: usage_wf_def)
  qed
  have add: "\<forall>x\<in>set (set_add a xs). well_formed_accessor x"
    if "\<forall>x\<in>set xs. well_formed_accessor x" for xs
    using that assms(1) by (auto simp: set_add_def)
  have upd: "usage_wf (u\<lparr>attributeAccessors := AList.update k (set_add a
      (case map_of (attributeAccessors u) k of None \<Rightarrow> [] | Some xs \<Rightarrow> xs)) (attributeAccessors u)\<rparr>)"
    for k
  proof -
    let ?v = "set_add a (case map_of (attributeAccessors u) k of None \<Rightarrow> [] | Some xs \<Rightarrow> xs)"
    have "\<forall>x\<in>set g. well_formed_accessor x"
      if "g \<in> set (map snd (AList.update k ?v (attributeAccessors u)))" for g
    proof -
      from that update_values [of k ?v "attributeAccessors u"]
      have "g = ?v \<or> g \<in> set (map snd (attributeAccessors u))" by blast
      then show ?thesis
      proof
        assume "g = ?v"
        with add [OF old [of k]] show ?thesis by simp
      next
        assume "g \<in> set (map snd (attributeAccessors u))"
        with assms(2) show ?thesis unfolding usage_wf_def by blast
      qed
    qed
    then show ?thesis unfolding usage_wf_def by simp
  qed
  from assms(3) show ?thesis
    using upd assms(2)
    by (auto simp: categorize_def Let_def usage_wf_def split: prod.splits if_splits list.splits)
qed

lemma interleaveAccessors_succeeds:
  assumes "xs \<noteq> []" "\<forall>a\<in>set xs. well_formed_accessor a"
  shows "\<exists>r s'. interleaveAccessors ext xs bufferIndex off s = Inr (r, s')"
proof -
  from assms(1) obtain a0 rest where xs: "xs = a0 # rest" by (cases xs) auto
  obtain m where d: "interleave_defs xs 0 s =
     (byteStride_of xs, s\<lparr>accessorIndexMap := m,
        json_accessors := json_accessors s @ interleaved_defs (length (json_bufferViews s)) 0 xs\<rparr>)"
    using interleave_defs_result [of xs 0 s] by auto
  show ?thesis
    unfolding interleaveAccessors_def
    using d interleave_write_loop [OF assms(2), of ext "getCount a0"]
    by (simp add: xs Let_def)
qed

lemma pack_primitive_succeeds:
  assumes "\<forall>a\<in>set g. well_formed_accessor a"
  shows "\<exists>p'. pack_primitive ext bufferIndex g p = Inr p'"
proof (cases "g = []")
  case True
  then show ?thesis by (cases p) (simp add: pack_primitive_def)
next
  case False
  obtain buffers len s where p: "p = (buffers, len, s)" by (cases p)
  from interleaveAccessors_succeeds [OF False assms, of ext bufferIndex len s]
  obtain r s' where "interleaveAccessors ext g bufferIndex len s = Inr (r, s')" by blast
  with False p show ?thesis by (simp add: pack_primitive_def)
qed

lemma pack_accessors_succeeds:
  assumes "usage_wf u"
  shows "\<exists>p. pack_accessors ext u bufferIndex s = Inr p"
proof -
  let ?p0 = "pack_concat (indexAccessors u) bufferIndex (Some ELEMENT_ARRAY_BUFFER) ([], 0, s)"
  have "\<exists>p'. foldE (pack_primitive ext bufferIndex) (map snd (attributeAccessors u)) ?p0 = Inr p'
          \<and> True"
  proof (rule foldE_succeeds [where P = "\<lambda>_. True"])
    show True ..
  next
    fix g t assume "g \<in> set (map snd (attributeAccessors u))"
    with assms have "\<forall>a\<in>set g. well_formed_accessor a" unfolding usage_wf_def by blast
    from pack_primitive_succeeds [OF this, of ext bufferIndex t]
    show "\<exists>t'. pack_primitive ext bufferIndex g t = Inr t' \<and> True" by simp
  qed
  then obtain p' where
    "foldE (pack_primitive ext bufferIndex) (map snd (attributeAccessors u)) ?p0 = Inr p'"
    by blast
  then have "pack_accessors ext u bufferIndex s
      = Inr (pack_concat (otherAccessors u) bufferIndex None p')"
    by (simp add: pack_accessors_def)
  then show ?thesis by (rule exI)
qed

lemma write_image_indexed:
  assumes "images_ok options s" "image_data_indexed s"
  shows "image_data_indexed (write_image options t i s)"
proof (cases "isGLB options \<or> embedded options")
  case True
  with assms(1) have l: "length (ist_imageData s) = length (ist_images s)"
      "length (ist_bufferViews s) = length (ist_images s)"
    by (auto simp: images_ok_def)
  show ?thesis
    unfolding image_data_indexed_def
  proof (intro allI impI)
    fix j assume j: "j < length (ist_imageData (write_image options t i s))"
    show "j < length (ist_images (write_image options t i s))
       \<and> (\<exists>k. img_bufferView (ist_images (write_image options t i s) ! j) = Some k
            \<and> k < length (ist_bufferViews (write_image options t i s)))"
    proof (cases "j < length (ist_imageData s)")
      case True
      with assms(2) obtain k where "j < length (ist_images s)"
          "img_bufferView (ist_images s ! j) = Some k" "k < length (ist_bufferViews s)"
        by (auto simp: image_data_indexed_def)
      with \<open>isGLB options \<or> embedded options\<close> show ?thesis
        by (simp add: write_image_def Let_def nth_append)
    next
      case False
      with j \<open>isGLB options \<or> embedded options\<close> have "j = length (ist_imageData s)"
        by (simp add: write_image_def Let_def)
      with l \<open>isGLB options \<or> embedded options\<close> show ?thesis
        by (simp add: write_image_def Let_def nth_append)
    qed
  qed
next
  case False
  with assms(1) have "ist_imageData s = []" by (auto simp: images_ok_def)
  with False show ?thesis
    by (simp add: image_data_indexed_def write_image_def Let_def split: prod.splits)
qed

lemma write_images_indexed:
  assumes "images_ok options s" "image_data_indexed s"
  shows "image_data_indexed (write_images options ts i s)"
  using assms
proof (induction ts arbitrary: i s)
  case Nil
  then show ?case by simp
next
  case (Cons t ts)
  from Cons.IH [OF write_image_ok(1) [OF Cons.prems(1)] write_image_indexed [OF Cons.prems]]
  show ?case by simp
qed

lemma write_textures_indexed: "image_data_indexed (write_textures doc options)"
  unfolding write_textures_def
  by (rule write_images_indexed) (simp_all add: images_ok_def image_views_below_def image_data_indexed_def)

lemma append_images_succeed:
  assumes idx: "\<forall>i<length imageData. i < length images
        \<and> (\<exists>k. img_bufferView (images ! i) = Some k \<and> k < n)"
    and n: "n \<le> length (json_bufferViews (snd (snd p)))"
  shows "\<exists>p'. foldE (append_image images imageData) [0..<length imageData] p = Inr p'
          \<and> n \<le> length (json_bufferViews (snd (snd p')))"
proof (rule foldE_succeeds [where P = "\<lambda>t. n \<le> length (json_bufferViews (snd (snd t)))"])
  show "n \<le> length (json_bufferViews (snd (snd p)))" by (rule n)
next
  fix i and t :: packing
  assume i: "i \<in> set [0..<length imageData]"
    and t: "n \<le> length (json_bufferViews (snd (snd t)))"
  obtain buffers len s where p: "t = (buffers, len, s)" by (cases t)
  from i idx obtain k where "i < length images" "i < length imageData"
      "img_bufferView (images ! i) = Some k" "k < n" by auto
  with t p show "\<exists>t'. append_image images imageData i t = Inr t'
      \<and> n \<le> length (json_bufferViews (snd (snd t')))"
    by (simp add: append_image_def)
qed

text \<open>The only way the per-buffer callback throws on a well-typed graph.\<close>

lemma pack_buffer_error:
  assumes wt: "well_typed_buffer b"
    and idx: "\<forall>i<length imageData. i < length images
        \<and> (\<exists>k. img_bufferView (images ! i) = Some k \<and> k < n)"
    and n: "n \<le> length (json_bufferViews s)"
    and err: "pack_buffer ext links images imageData b s = Inl e"
  shows "e = AttributeOrIndexAccessorsMustBeUsedOnlyForThatPurpose"
proof -
  have par: "\<exists>a. p = ParentAccessor a \<and> well_formed_accessor a" if "p \<in> set (bufferParents b)" for p
  proof -
    from that have "p \<in> set (listParents b)" "p \<noteq> ParentRoot"
      by (auto simp: bufferParents_def)
    with wt show ?thesis
      unfolding well_typed_buffer_def by (cases p) auto
  qed
  have u0: "usage_wf empty_usage" by (simp add: usage_wf_def empty_usage_def)
  show ?thesis
  proof (cases "foldE (categorize links) (bufferParents b) empty_usage")
    case (Inl e')
    with err have e: "e' = e" by (simp add: pack_buffer_def)
    show ?thesis
    proof (rule foldE_error [where P = usage_wf
          and Q = "\<lambda>e. e = AttributeOrIndexAccessorsMustBeUsedOnlyForThatPurpose",
          OF Inl [unfolded e] u0])
      fix x t t' assume "x \<in> set (bufferParents b)" "usage_wf t" "categorize links x t = Inr t'"
      then show "usage_wf t'" using par categorize_usage_wf by blast
    next
      fix x t e' assume "x \<in> set (bufferParents b)" "usage_wf t" "categorize links x t = Inl e'"
      then show "e' = AttributeOrIndexAccessorsMustBeUsedOnlyForThatPurpose"
        using par categorize_error by blast
    qed
  next
    case (Inr u)
    have uw: "usage_wf u"
    proof (rule foldE_invariant [OF Inr, of usage_wf])
      show "usage_wf empty_usage" by (rule u0)
    next
      fix x t t' assume "x \<in> set (bufferParents b)" "usage_wf t" "categorize links x t = Inr t'"
      then show "usage_wf t'" using par categorize_usage_wf by blast
    qed
    from pack_accessors_succeeds [OF uw, of ext "length (json_buffers s)" s]
    obtain p where p: "pack_accessors ext u (length (json_buffers s)) s = Inr p" by blast
    from pack_accessors_packed [OF p] obtain vs where
      "packed s (length (json_buffers s)) p vs (packed_accessors u)" by blast
    then have "json_bufferViews (snd (snd p)) = json_bufferViews s @ vs"
      by (cases p) (simp add: packed_def)
    with n have "n \<le> length (json_bufferViews (snd (snd p)))" by simp
    from append_images_succeed [OF idx this]
    obtain p' where "foldE (append_image images imageData) [0..<length imageData] p = Inr p'"
      by blast
    with err Inr p show ?thesis by (simp add: pack_buffer_def)
  qed
qed

lemma buffer_step_overlap:
  assumes "ParentAccessor a \<in> set (listParents b)"
    and "roles_overlap (accessorRefs_of (gather_links (getLinks doc) Map.empty) a)"
  shows "\<exists>e. buffer_step ext doc options b t = Inl e"
proof -
  let ?L = "gather_links (getLinks doc) Map.empty"
  from assms(1) have m: "ParentAccessor a \<in> set (bufferParents b)"
    by (simp add: bufferParents_def)
  have "\<exists>e. foldE (categorize ?L) (bufferParents b) empty_usage = Inl e"
  proof (rule foldE_fails [OF m])
    fix u show "\<exists>e. categorize ?L (ParentAccessor a) u = Inl e"
      using categorize_overlap [OF assms(2), of u] by simp
  qed
  then show ?thesis
    by (auto simp: buffer_step_def write_buffer_def pack_buffer_def)
qed

lemma buffer_steps_error:
  assumes wt: "\<forall>x\<in>set bs. well_typed_buffer x"
    and err: "foldE (buffer_step ext doc options) bs (initial_buffer_state doc options) = Inl e"
  shows "e = AttributeOrIndexAccessorsMustBeUsedOnlyForThatPurpose"
proof -
  let ?L = "gather_links (getLinks doc) Map.empty"
  let ?T = "write_textures doc options"
  let ?n = "length (ist_bufferViews ?T)"
  have below: "image_views_below ?n (ist_images ?T)"
    using write_textures_ok(1) [of options doc] by (simp add: images_ok_def)
  have idx: "\<forall>i<length (ist_imageData ?T). i < length (ist_images ?T)
        \<and> (\<exists>k. img_bufferView (ist_images ?T ! i) = Some k \<and> k < ?n)"
    using write_textures_indexed [of doc options] by (simp add: image_data_indexed_def)
  show ?thesis
  proof (rule foldE_error [where P = "\<lambda>t. \<exists>bs. written ?L (ist_bufferViews ?T) bs t"
        and Q = "\<lambda>e. e = AttributeOrIndexAccessorsMustBeUsedOnlyForThatPurpose",
        OF err])
    show "\<exists>bs. written ?L (ist_bufferViews ?T) bs (initial_buffer_state doc options)"
      using written_initial by blast
  next
    fix x t t'
    assume "\<exists>bs. written ?L (ist_bufferViews ?T) bs t" "buffer_step ext doc options x t = Inr t'"
    then show "\<exists>bs. written ?L (ist_bufferViews ?T) bs t'"
      unfolding buffer_step_def using written_step [OF below] by blast
  next
    fix x t e'
    assume x: "x \<in> set bs"
      and inv: "\<exists>bs. written ?L (ist_bufferViews ?T) bs t"
      and e': "buffer_step ext doc options x t = Inl e'"
    from wt x have wb: "well_typed_buffer x" by simp
    from inv have n: "?n \<le> length (json_bufferViews t)" by (auto simp: written_def)
    from e' have "pack_buffer ext ?L (ist_images ?T) (ist_imageData ?T) x t = Inl e'"
      by (auto simp: buffer_step_def write_buffer_def split: sum.splits if_splits)
    from pack_buffer_error [OF wb idx n this]
    show "e' = AttributeOrIndexAccessorsMustBeUsedOnlyForThatPurpose" .
  qed
qed

lemma categorize_prefix_overlap:
  assumes acc: "\<forall>p\<in>set ps. \<exists>x. p = ParentAccessor x"
    and ov: "roles_overlap (accessorRefs_of links a)"
  shows "foldE (categorize links) (ps @ ParentAccessor a # qs) u
           = Inl AttributeOrIndexAccessorsMustBeUsedOnlyForThatPurpose"
proof (cases "foldE (categorize links) ps u")
  case (Inl e)
  have "e = AttributeOrIndexAccessorsMustBeUsedOnlyForThatPurpose"
  proof (rule foldE_error [where P = "\<lambda>_. True"
        and Q = "\<lambda>e. e = AttributeOrIndexAccessorsMustBeUsedOnlyForThatPurpose", OF Inl])
    fix p t e' assume "p \<in> set ps" "categorize links p t = Inl e'"
    with acc show "e' = AttributeOrIndexAccessorsMustBeUsedOnlyForThatPurpose"
      by (auto dest: categorize_error)
  qed simp_all
  with Inl show ?thesis by (simp add: foldE_append)
next
  case (Inr t)
  with categorize_overlap [OF ov, of t] show ?thesis by (simp add: foldE_append)
qed

lemma buffer_step_overlap_first:
  assumes pars: "listParents b = ps @ ParentAccessor a # qs"
    and np: "\<forall>p\<in>set ps. \<forall>n. p \<noteq> ParentOther n"
    and ov: "roles_overlap (accessorRefs_of (gather_links (getLinks doc) Map.empty) a)"
  shows "buffer_step ext doc options b t
           = Inl AttributeOrIndexAccessorsMustBeUsedOnlyForThatPurpose"
proof -
  let ?keep = "\<lambda>p. case p of ParentRoot \<Rightarrow> False | _ \<Rightarrow> True"
  have bp: "bufferParents b = filter ?keep ps @ ParentAccessor a # filter ?keep qs"
    by (simp add: bufferParents_def pars)
  have acc: "\<forall>p\<in>set (filter ?keep ps). \<exists>x. p = ParentAccessor x"
  proof
    fix p assume "p \<in> set (filter ?keep ps)"
    then have "p \<in> set ps" "p \<noteq> ParentRoot" by auto
    with np show "\<exists>x. p = ParentAccessor x" by (cases p) auto
  qed
  from categorize_prefix_overlap [OF acc ov, of "filter ?keep qs" empty_usage]
  show ?thesis
    by (simp add: buffer_step_def write_buffer_def pack_buffer_def bp)
qed

text \<open>C6, as amended. Whenever the links of an accessor of some buffer of the document
  put it into more than one of the roles attribute, index and other, \<open>write\<close> ends
  with a fatal error and hands no native document to its caller. The error is
  "Attribute or index accessors must be used only for that purpose." when no other throw
  of the writer comes first: when the buffers listed before that buffer are referenced by
  the root and by accessors of the data model only, and the parents listed before that
  accessor in its own buffer are the root or accessors.\<close>

theorem role_overlap_is_fatal:
  assumes bufs: "listBuffers doc = pre @ b # post"
    and pars: "listParents b = ps @ ParentAccessor a # qs"
    and ov: "roles_overlap (accessorRefs_of (gather_links (getLinks doc) Map.empty) a)"
  shows "(\<exists>e. GLTFWriter_write ext doc options = Inl e)
     \<and> ((\<forall>x\<in>set pre. well_typed_buffer x) \<and> (\<forall>p\<in>set ps. \<forall>n. p \<noteq> ParentOther n) \<longrightarrow>
          GLTFWriter_write ext doc options
            = Inl AttributeOrIndexAccessorsMustBeUsedOnlyForThatPurpose)"
proof -
  have b: "b \<in> set (listBuffers doc)" by (simp add: bufs)
  have a: "ParentAccessor a \<in> set (listParents b)" by (simp add: pars)
  have "\<exists>e. foldE (buffer_step ext doc options) (listBuffers doc)
           (initial_buffer_state doc options) = Inl e"
    by (rule foldE_fails [OF b]) (rule buffer_step_overlap [OF a ov])
  then have 1: "\<exists>e. GLTFWriter_write ext doc options = Inl e"
    by (auto simp: GLTFWriter_write_def write_buffers_def)
  have 2: "GLTFWriter_write ext doc options
            = Inl AttributeOrIndexAccessorsMustBeUsedOnlyForThatPurpose"
    if wt: "\<forall>x\<in>set pre. well_typed_buffer x" and np: "\<forall>p\<in>set ps. \<forall>n. p \<noteq> ParentOther n"
  proof (cases "foldE (buffer_step ext doc options) pre (initial_buffer_state doc options)")
    case (Inl e)
    from buffer_steps_error [OF wt Inl]
    have "e = AttributeOrIndexAccessorsMustBeUsedOnlyForThatPurpose" .
    with Inl show ?thesis
      by (simp add: GLTFWriter_write_def write_buffers_def bufs foldE_append)
  next
    case (Inr t)
    with buffer_step_overlap_first [OF pars np ov, of ext options t] show ?thesis
      by (simp add: GLTFWriter_write_def write_buffers_def bufs foldE_append)
  qed
  from 1 2 show ?thesis by blast
qed

theorem role_overlap_is_fatal_witness:
  "listBuffers mixed_role_document = [] @ mixed_buffer # []
   \<and> listParents mixed_buffer = [ParentRoot] @ ParentAccessor mixed_accessor # []
   \<and> roles_overlap (accessorRefs_of (gather_links (getLinks mixed_role_document) Map.empty)
        mixed_accessor)
   \<and> GLTFWriter_write sample_externals mixed_role_document glb_options
       = Inl AttributeOrIndexAccessorsMustBeUsedOnlyForThatPurpose"
proof -
  have 1: "listBuffers mixed_role_document = [] @ mixed_buffer # []"
    by (simp add: mixed_role_document_def)
  have 2: "listParents mixed_buffer = [ParentRoot] @ ParentAccessor mixed_accessor # []"
    by (simp add: mixed_buffer_def sample_buffer_def)
  have 3: "roles_overlap (accessorRefs_of (gather_links (getLinks mixed_role_document) Map.empty)
        mixed_accessor)"
    by (simp add: roles_overlap_def accessorRefs_of_def mixed_role_document_def
        mixed_accessor_def byte_accessor_def)
  from role_overlap_is_fatal [OF 1 2 3, of sample_externals glb_options]
  have "GLTFWriter_write sample_externals mixed_role_document glb_options
       = Inl AttributeOrIndexAccessorsMustBeUsedOnlyForThatPurpose" by simp
  with 1 2 3 show ?thesis by (intro conjI)
qed

text \<open>The same accessor, with a parent that is no accessor listed before it in its buffer:
  the accessor is in two roles, and the error is the one raised for the other parent.\<close>

theorem other_parent_first_counterexample:
  "listParents other_parent_buffer = [ParentRoot, ParentOther 1, ParentAccessor mixed_accessor]
   \<and> listBuffers other_parent_document = [other_parent_buffer]
   \<and> roles_overlap (accessorRefs_of (gather_links (getLinks other_parent_document) Map.empty)
        mixed_accessor)
   \<and> GLTFWriter_write sample_externals other_parent_document glb_options
       = Inl (UnimplementedBufferReference (OtherRef 1))
   \<and> GLTFWriter_write sample_externals other_parent_document glb_options
       \<noteq> Inl AttributeOrIndexAccessorsMustBeUsedOnlyForThatPurpose"
  by (simp add: writer_eval sample_defs other_parent_document_def other_parent_buffer_def
      mixed_role_document_def mixed_accessor_def roles_overlap_def)

section \<open>Raw bytes of the buffers\<close>

lemma foldE_prefix:
  assumes "foldE f xs s = Inr s'" "P pre s"
    and "\<And>ys x t t'. P ys t \<Longrightarrow> f x t = Inr t' \<Longrightarrow> P (ys @ [x]) t'"
  shows "P (pre @ xs) s'"
  using assms(1,2)
proof (induction xs arbitrary: pre s)
  case Nil
  then show ?case by simp
next
  case (Cons x xs)
  from Cons.prems(1) obtain t where t: "f x s = Inr t" "foldE f xs t = Inr s'"
    by (auto split: sum.splits)
  from Cons.IH [OF t(2) assms(3) [OF Cons.prems(2) t(1)]] show ?case by simp
qed

lemma pack_concat_buffers:
  "fst (pack_concat xs bufferIndex tgt p) = fst p @ map padded_blob xs"
proof (cases "xs = []")
  case True
  then show ?thesis by (cases p) (simp add: pack_concat_def)
next
  case False
  obtain buffers len s where p: "p = (buffers, len, s)" by (cases p)
  from concatAccessors_result [of xs bufferIndex len tgt s] obtain r s' where
    "concatAccessors xs bufferIndex len tgt s = (r, s')" "res_buffers r = map padded_blob xs"
    by auto
  with False show ?thesis by (simp add: pack_concat_def p)
qed

lemma interleaveAccessors_view:
  assumes "interleaveAccessors ext g bufferIndex off s = Inr (r, s')"
  shows "res_buffers r = [interleaved_view ext g]"
proof -
  from assms obtain a0 rest where g: "g = a0 # rest"
    by (cases g) (auto simp: interleaveAccessors_def)
  obtain m where d: "interleave_defs g 0 s =
     (byteStride_of g, s\<lparr>accessorIndexMap := m,
        json_accessors := json_accessors s @ interleaved_defs (length (json_bufferViews s)) 0 g\<rparr>)"
    using interleave_defs_result [of g 0 s] by auto
  from assms show ?thesis
    unfolding interleaveAccessors_def g list.case Let_def d [unfolded g] prod.case
      interleaved_view_def list.sel
    by (auto split: sum.splits)
qed

lemma pack_primitive_buffers:
  assumes "pack_primitive ext bufferIndex g p = Inr p'"
  shows "fst p' = fst p @ map (interleaved_view ext) (filter (\<lambda>g. g \<noteq> []) [g])"
proof (cases "g = []")
  case True
  with assms show ?thesis by (cases p) (simp add: pack_primitive_def)
next
  case False
  obtain buffers len s where p: "p = (buffers, len, s)" by (cases p)
  from assms False p obtain r s' where
    i: "interleaveAccessors ext g bufferIndex len s = Inr (r, s')"
    and p': "p' = (buffers @ res_buffers r, len + res_byteLength r, s')"
    by (auto simp: pack_primitive_def split: sum.splits)
  from interleaveAccessors_view [OF i] False show ?thesis
    by (simp add: p p')
qed

lemma pack_primitives_buffers:
  assumes "foldE (pack_primitive ext bufferIndex) gs p = Inr p'"
  shows "fst p' = fst p @ map (interleaved_view ext) (filter (\<lambda>g. g \<noteq> []) gs)"
proof -
  have "fst p' = fst p @ map (interleaved_view ext) (filter (\<lambda>g. g \<noteq> []) ([] @ gs))"
  proof (rule foldE_prefix [OF assms,
        where P = "\<lambda>ys t. fst t = fst p @ map (interleaved_view ext) (filter (\<lambda>g. g \<noteq> []) ys)"])
    show "fst p = fst p @ map (interleaved_view ext) (filter (\<lambda>g. g \<noteq> []) [])" by simp
  next
    fix ys x t t'
    assume "fst t = fst p @ map (interleaved_view ext) (filter (\<lambda>g. g \<noteq> []) ys)"
      "pack_primitive ext bufferIndex x t = Inr t'"
    with pack_primitive_buffers [of ext bufferIndex x t t']
    show "fst t' = fst p @ map (interleaved_view ext) (filter (\<lambda>g. g \<noteq> []) (ys @ [x]))"
      by simp
  qed
  then show ?thesis by simp
qed

lemma pack_accessors_buffers:
  assumes "pack_accessors ext u bufferIndex s = Inr p"
  shows "fst p = map padded_blob (indexAccessors u)
     @ map (interleaved_view ext) (filter (\<lambda>g. g \<noteq> []) (map snd (attributeAccessors u)))
     @ map padded_blob (otherAccessors u)"
proof -
  let ?p0 = "pack_concat (indexAccessors u) bufferIndex (Some ELEMENT_ARRAY_BUFFER) ([], 0, s)"
  from assms obtain p1 where
    1: "foldE (pack_primitive ext bufferIndex) (map snd (attributeAccessors u)) ?p0 = Inr p1"
    and 2: "p = pack_concat (otherAccessors u) bufferIndex None p1"
    by (auto simp: pack_accessors_def split: sum.splits)
  from pack_primitives_buffers [OF 1] show ?thesis
    by (simp add: 2 pack_concat_buffers)
qed

lemma append_images_buffers:
  assumes "foldE (append_image images imageData) [0..<n] p = Inr p'" "n \<le> length imageData"
  shows "fst p' = fst p @ take n imageData"
  using assms
proof (induction n arbitrary: p')
  case 0
  then show ?case by simp
next
  case (Suc n)
  from Suc.prems(1) obtain q where
    q: "foldE (append_image images imageData) [0..<n] p = Inr q"
    and l: "append_image images imageData n q = Inr p'"
    by (auto simp: foldE_append split: sum.splits)
  from Suc.IH [OF q] Suc.prems(2) have "fst q = fst p @ take n imageData" by simp
  moreover from l have "fst p' = fst q @ [imageData ! n]"
    by (cases q) (auto simp: append_image_def split: if_splits option.splits)
  ultimately show ?case
    using Suc.prems(2) by (simp add: take_Suc_conv_app_nth)
qed

lemma imageData_write_images:
  "ist_imageData (write_images options ts i s)
     = ist_imageData s @ (if isGLB options \<or> embedded options then map getImage ts else [])"
proof (induction ts arbitrary: i s)
  case Nil
  show ?case by simp
next
  case (Cons t ts)
  have "ist_imageData (write_image options t i s)
     = ist_imageData s @ (if isGLB options \<or> embedded options then [getImage t] else [])"
    by (simp add: write_image_def Let_def split: prod.splits)
  with Cons.IH [of "Suc i" "write_image options t i s"] show ?case by simp
qed

lemma imageData_write_textures:
  "ist_imageData (write_textures doc options)
     = (if isGLB options \<or> embedded options then map getImage (listTextures doc) else [])"
  by (simp add: write_textures_def imageData_write_images)

text \<open>The bytes handed on by the first half of the callback are the raw bytes of the
  buffer, whatever the tables were.\<close>

lemma pack_buffer_bytes:
  assumes "pack_buffer ext (gather_links (getLinks doc) Map.empty) images
             (ist_imageData (write_textures doc options)) b s = Inr (buffers, len, s1)"
  shows "concat buffers = buffer_bytes ext doc options b"
proof -
  let ?L = "gather_links (getLinks doc) Map.empty"
  let ?D = "ist_imageData (write_textures doc options)"
  from assms obtain u p0 where
    u: "foldE (categorize ?L) (bufferParents b) empty_usage = Inr u"
    and p0: "pack_accessors ext u (length (json_buffers s)) s = Inr p0"
    and im: "foldE (append_image images ?D) [0..<length ?D] p0 = Inr (buffers, len, s1)"
    by (auto simp: pack_buffer_def split: sum.splits)
  from u have uo: "usage_of ?L b = u" by (simp add: usage_of_def)
  from append_images_buffers [OF im] have "buffers = fst p0 @ ?D" by simp
  with pack_accessors_buffers [OF p0] show ?thesis
    by (simp add: buffer_bytes_def uo imageData_write_textures)
qed

text \<open>What the callback does to \<open>json.buffers\<close>, the resources and the log, in terms of
  the raw bytes of the buffer.\<close>

lemma buffer_step_skips:
  assumes st: "buffer_step ext doc options b t = Inr t'"
    and e: "buffer_bytes ext doc options b = []"
  shows "json_buffers t' = json_buffers t \<and> resources t' = resources t
     \<and> bufferURIGenerator t' = bufferURIGenerator t
     \<and> logged t' = logged t @ [empty_buffer_warning ext b]"
proof -
  from st obtain buffers len s1 where
    pk: "pack_buffer ext (gather_links (getLinks doc) Map.empty)
           (ist_images (write_textures doc options))
           (ist_imageData (write_textures doc options)) b t = Inr (buffers, len, s1)"
    and skip: "len = 0 \<longrightarrow> t' = s1\<lparr>logged := logged s1 @ [empty_buffer_warning ext b]\<rparr>"
    unfolding buffer_step_def by (rule write_buffer_cases)
  from pack_buffer_frame [OF pk] pack_buffer_bytes [OF pk] e have "len = 0" by simp
  with skip pack_buffer_frame [OF pk] show ?thesis by simp
qed

lemma buffer_step_emits:
  assumes st: "buffer_step ext doc options b t = Inr t'"
    and e: "buffer_bytes ext doc options b \<noteq> []"
  shows "json_buffers t' = json_buffers t @
           [\<lparr>bd_prop = createPropertyDef b,
             bd_uri = (if embedded options
                       then Some (''data:application/octet-stream;base64,''
                                  @ encodeBufferToBase64 ext (buffer_bytes ext doc options b))
                       else if isGLB options then None
                       else Some (fst (createURI (bufferURIGenerator t) (buf_getURI b) ''bin''))),
             bd_byteLength = length (buffer_bytes ext doc options b)\<rparr>]"
    and "resources t' =
           (if embedded options then resources t
            else AList.update
                   (if isGLB options then GLB_BUFFER
                    else fst (createURI (bufferURIGenerator t) (buf_getURI b) ''bin''))
                   (buffer_bytes ext doc options b) (resources t))"
    and "logged t' = logged t"
proof -
  from st obtain buffers len s1 where
    pk: "pack_buffer ext (gather_links (getLinks doc) Map.empty)
           (ist_images (write_textures doc options))
           (ist_imageData (write_textures doc options)) b t = Inr (buffers, len, s1)"
    and emit: "len \<noteq> 0 \<longrightarrow> t' = emit_buffer ext options b (buffers, len, s1)"
    unfolding buffer_step_def by (rule write_buffer_cases)
  note f = pack_buffer_frame [OF pk]
  note c = pack_buffer_bytes [OF pk]
  from f c e have l: "len = length (buffer_bytes ext doc options b)" "len \<noteq> 0" by simp_all
  with emit have t': "t' = emit_buffer ext options b (buffers, len, s1)" by simp
  show "json_buffers t' = json_buffers t @
           [\<lparr>bd_prop = createPropertyDef b,
             bd_uri = (if embedded options
                       then Some (''data:application/octet-stream;base64,''
                                  @ encodeBufferToBase64 ext (buffer_bytes ext doc options b))
                       else if isGLB options then None
                       else Some (fst (createURI (bufferURIGenerator t) (buf_getURI b) ''bin''))),
             bd_byteLength = length (buffer_bytes ext doc options b)\<rparr>]"
    unfolding t' emit_buffer_def using f c l(1)
    by (simp split: prod.splits)
  show "resources t' =
           (if embedded options then resources t
            else AList.update
                   (if isGLB options then GLB_BUFFER
                    else fst (createURI (bufferURIGenerator t) (buf_getURI b) ''bin''))
                   (buffer_bytes ext doc options b) (resources t))"
    unfolding t' emit_buffer_def using f c
    by (simp split: prod.splits)
  show "logged t' = logged t"
    unfolding t' emit_buffer_def using f
    by (simp split: prod.splits)
qed

lemma emitted_props:
  assumes "foldE (buffer_step ext doc options) bs (initial_buffer_state doc options) = Inr t"
  shows "map bd_prop (json_buffers t)
           = map createPropertyDef (filter (\<lambda>b. buffer_bytes ext doc options b \<noteq> []) bs)
     \<and> map bd_byteLength (json_buffers t)
           = map (\<lambda>b. length (buffer_bytes ext doc options b))
               (filter (\<lambda>b. buffer_bytes ext doc options b \<noteq> []) bs)"
proof -
  let ?E = "filter (\<lambda>b. buffer_bytes ext doc options b \<noteq> [])"
  let ?P = "\<lambda>ys t. map bd_prop (json_buffers t) = map createPropertyDef (?E ys)
     \<and> map bd_byteLength (json_buffers t)
           = map (\<lambda>b. length (buffer_bytes ext doc options b)) (?E ys)"
  have "?P ([] @ bs) t"
  proof (rule foldE_prefix [OF assms, where P = ?P])
    show "?P [] (initial_buffer_state doc options)"
      by (simp add: initial_buffer_state_def)
  next
    fix ys x u u'
    assume inv: "?P ys u" and st: "buffer_step ext doc options x u = Inr u'"
    show "?P (ys @ [x]) u'"
    proof (cases "buffer_bytes ext doc options x = []")
      case True
      with buffer_step_skips [OF st True] inv show ?thesis by simp
    next
      case False
      with buffer_step_emits(1) [OF st False] inv show ?thesis by simp
    qed
  qed
  then show ?thesis by simp
qed

lemma glb_emitted:
  assumes glb: "isGLB options"
    and run: "foldE (buffer_step ext doc options) bs (initial_buffer_state doc options) = Inr t"
  shows "json_buffers t
           = map (\<lambda>b. \<lparr>bd_prop = createPropertyDef b,
                        bd_uri = (if embedded options
                                  then Some (''data:application/octet-stream;base64,''
                                     @ encodeBufferToBase64 ext (buffer_bytes ext doc options b))
                                  else None),
                        bd_byteLength = length (buffer_bytes ext doc options b)\<rparr>)
               (filter (\<lambda>b. buffer_bytes ext doc options b \<noteq> []) bs)
     \<and> resources t
           = (if embedded options \<or> filter (\<lambda>b. buffer_bytes ext doc options b \<noteq> []) bs = []
              then []
              else [(GLB_BUFFER, buffer_bytes ext doc options
                       (last (filter (\<lambda>b. buffer_bytes ext doc options b \<noteq> []) bs)))])"
proof -
  let ?E = "filter (\<lambda>b. buffer_bytes ext doc options b \<noteq> [])"
  let ?d = "\<lambda>b. \<lparr>bd_prop = createPropertyDef b,
                        bd_uri = (if embedded options
                                  then Some (''data:application/octet-stream;base64,''
                                     @ encodeBufferToBase64 ext (buffer_bytes ext doc options b))
                                  else None),
                        bd_byteLength = length (buffer_bytes ext doc options b)\<rparr>"
  let ?P = "\<lambda>ys t. json_buffers t = map ?d (?E ys)
     \<and> resources t = (if embedded options \<or> ?E ys = [] then []
              else [(GLB_BUFFER, buffer_bytes ext doc options (last (?E ys)))])"
  have r0: "ist_resources (write_textures doc options) = []"
    using write_textures_ok(1) [where doc = doc and options = options] glb
    by (simp add: images_ok_def)
  have "?P ([] @ bs) t"
  proof (rule foldE_prefix [OF run, where P = ?P])
    show "?P [] (initial_buffer_state doc options)"
      by (simp add: initial_buffer_state_def r0)
  next
    fix ys x u u'
    assume inv: "?P ys u" and st: "buffer_step ext doc options x u = Inr u'"
    show "?P (ys @ [x]) u'"
    proof (cases "buffer_bytes ext doc options x = []")
      case True
      with buffer_step_skips [OF st True] inv show ?thesis by simp
    next
      case False
      from inv have "resources u = [] \<or> (\<exists>old. resources u = [(GLB_BUFFER, old)])"
        by (auto split: if_splits)
      then have "AList.update GLB_BUFFER (buffer_bytes ext doc options x) (resources u)
          = [(GLB_BUFFER, buffer_bytes ext doc options x)]"
        by auto
      with buffer_step_emits(1,2) [OF st False] inv glb False show ?thesis
        by simp
    qed
  qed
  then show ?thesis by simp
qed

section \<open>The sampler and texture tables in order of first use\<close>

lemma first_uses_Nil [simp]: "first_uses [] = []"
  by (simp add: first_uses_def)

lemma first_uses_snoc:
  "first_uses (xs @ [x]) = (if x \<in> set xs then first_uses xs else first_uses xs @ [x])"
  by (simp add: first_uses_def)

lemma set_first_uses [simp]: "set (first_uses xs) = set xs"
  by (simp add: first_uses_def)

lemma distinct_first_uses [simp]: "distinct (first_uses xs)"
  by (simp add: first_uses_def)

lemma position_None: "position x xs = None \<longleftrightarrow> x \<notin> set xs"
  by (induction xs) auto

lemma position_Some: "position x xs = Some i \<Longrightarrow> i < length xs \<and> xs ! i = x"
  by (induction xs arbitrary: i) (auto split: if_splits)

lemma position_append_in:
  "x \<in> set xs \<Longrightarrow> position x (xs @ ys) = position x xs"
  by (induction xs) auto

lemma position_append_new:
  "x \<notin> set xs \<Longrightarrow> position x (xs @ [x]) = Some (length xs)"
  by (induction xs) auto

lemma position_nth:
  "distinct xs \<Longrightarrow> i < length xs \<Longrightarrow> position (xs ! i) xs = Some i"
proof (induction xs arbitrary: i)
  case Nil
  then show ?case by simp
next
  case (Cons y ys)
  show ?case
  proof (cases i)
    case 0
    then show ?thesis by simp
  next
    case (Suc j)
    with Cons.prems have "ys ! j \<noteq> y" "position (ys ! j) ys = Some j"
      using Cons.IH [of j] by auto
    with Suc show ?thesis by simp
  qed
qed

lemma position_map_inj:
  assumes "\<And>a b. f a = f b \<Longrightarrow> a = b"
  shows "position (f x) (map f xs) = position x xs"
  using assms by (induction xs) auto

lemma table_ok_position:
  assumes "table_ok m ks"
  shows "m k = position k ks"
proof (cases "position k ks")
  case None
  then have "k \<notin> set ks" by (simp add: position_None)
  with table_ok_dom [OF assms] have "k \<notin> dom m" by simp
  with None show ?thesis by (simp add: domIff)
next
  case (Some i)
  from position_Some [OF Some] assms have "m k = Some i"
    by (simp add: table_ok_def)
  with Some show ?thesis by simp
qed

lemma stringify_sampler_inj:
  "stringify_sampler a = stringify_sampler b \<Longrightarrow> a = b"
  by (cases a, cases b)
     (auto simp: stringify_sampler_def stringify_field_def split: option.splits)

lemma sampler_def_spec:
  "\<lparr>sd_magFilter = or_undefined (getMagFilter ts), sd_minFilter = or_undefined (getMinFilter ts),
    sd_wrapS = getWrapS ts, sd_wrapT = getWrapT ts\<rparr> = spec_sampler ts"
  by (auto simp: spec_sampler_def or_undefined_def split: option.splits)

lemma sampler_key_spec: "sampler_key ts = stringify_sampler (spec_sampler ts)"
  by (simp add: sampler_key_def sampler_def_spec)

lemma tables_ok_sampler:
  assumes "tables_ok s"
  shows "samplerIndexMap s (stringify_sampler d) = position d (json_samplers s)"
proof -
  from assms have "table_ok (samplerIndexMap s) (map stringify_sampler (json_samplers s))"
    by (simp add: tables_ok_def)
  from table_ok_position [OF this, of "stringify_sampler d"] show ?thesis
    by (simp add: position_map_inj [of stringify_sampler, OF stringify_sampler_inj])
qed

lemma tables_ok_texture:
  assumes "tables_ok s"
  shows "textureIndexMap s (stringify_texture d) = position d (json_textures s)"
proof -
  from assms have "table_ok (textureIndexMap s) (map stringify_texture (json_textures s))"
    by (simp add: tables_ok_def)
  from table_ok_position [OF this, of "stringify_texture d"] show ?thesis
    by (simp add: position_map_inj [of stringify_texture, OF stringify_texture_inj])
qed

lemma position_snoc:
  "position x (xs @ [y]) = (case position x xs of
       Some k \<Rightarrow> Some k | None \<Rightarrow> if x = y then Some (length xs) else None)"
  by (induction xs) (auto split: option.splits)

lemma imageIndexMap_write_image:
  "ist_imageIndexMap (write_image options t i s) = (ist_imageIndexMap s)(tex_id t \<mapsto> i)"
  by (simp add: write_image_def Let_def split: prod.splits)

lemma imageIndexMap_write_images:
  "ist_imageIndexMap (write_images options ts i s) x
     = (case position x (rev (map tex_id ts)) of
          None \<Rightarrow> ist_imageIndexMap s x
        | Some k \<Rightarrow> Some (i + (length ts - Suc k)))"
proof (induction ts arbitrary: i s)
  case Nil
  show ?case by simp
next
  case (Cons t ts)
  show ?case
  proof (cases "position x (rev (map tex_id ts))")
    case None
    with Cons.IH [of "Suc i" "write_image options t i s"] show ?thesis
      by (simp add: position_snoc imageIndexMap_write_image)
  next
    case (Some k)
    from position_Some [OF Some] have "k < length ts" by simp
    with Some Cons.IH [of "Suc i" "write_image options t i s"] show ?thesis
      by (simp add: position_snoc Suc_diff_Suc)
  qed
qed

lemma imageIndexMap_write_textures:
  "ist_imageIndexMap (write_textures doc options) = image_source (listTextures doc)"
proof
  fix x
  show "ist_imageIndexMap (write_textures doc options) x = image_source (listTextures doc) x"
    unfolding write_textures_def image_source_def imageIndexMap_write_images
    by (simp split: option.splits)
qed

lemma visited_empty:
  "visited imap [] \<lparr>json_samplers = [], json_textures = [],
             samplerIndexMap = Map.empty, textureIndexMap = Map.empty\<rparr>"
  by (simp add: visited_def tables_ok_def table_ok_empty)

lemma createTextureInfoDef_visited:
  assumes v: "visited imap L s" and c: "createTextureInfoDef imap sl s = (d, s')"
  shows "visited imap (L @ [sl]) s'"
proof -
  define sd where "sd = spec_sampler (slot_sampler sl)"
  define sk where "sk = stringify_sampler sd"
  define s1 where "s1 = (if samplerIndexMap s sk = None
               then s\<lparr>samplerIndexMap := (samplerIndexMap s)(sk \<mapsto> length (json_samplers s)),
                      json_samplers := json_samplers s @ [sd]\<rparr>
               else s)"
  define td where "td = \<lparr>td_source = imap (slot_texture sl), td_sampler = samplerIndexMap s1 sk\<rparr>"
  define tk where "tk = stringify_texture td"
  define s2 where "s2 = (if textureIndexMap s1 tk = None
               then s1\<lparr>textureIndexMap := (textureIndexMap s1)(tk \<mapsto> length (json_textures s1)),
                       json_textures := json_textures s1 @ [td]\<rparr>
               else s1)"
  have eq: "createTextureInfoDef imap sl s =
      (\<lparr>ti_index = textureIndexMap s2 tk, ti_texCoord = getTexCoord (slot_info sl),
        ti_scale = None, ti_strength = None\<rparr>, s2)"
    unfolding createTextureInfoDef_def Let_def s2_def tk_def td_def s1_def sk_def sd_def
      sampler_def_spec
    by (rule refl)
  from c have s': "s' = s2" unfolding eq by simp
  from v have ok: "tables_ok s"
    and S: "json_samplers s = first_uses (map (\<lambda>sl. spec_sampler (slot_sampler sl)) L)"
    and T: "json_textures s = first_uses (map (\<lambda>sl.
          \<lparr>td_source = imap (slot_texture sl),
           td_sampler = position (spec_sampler (slot_sampler sl)) (json_samplers s)\<rparr>) L)"
    by (simp_all add: visited_def)
  from createTextureInfoDef_step [OF ok c] have ok': "tables_ok s'" by simp
  have new: "samplerIndexMap s sk = None \<longleftrightarrow> sd \<notin> set (json_samplers s)"
    unfolding sk_def tables_ok_sampler [OF ok] by (rule position_None)
  have S1: "json_samplers s1 = first_uses (map (\<lambda>sl. spec_sampler (slot_sampler sl)) (L @ [sl]))"
    using new S by (simp add: s1_def first_uses_snoc sd_def)
  have S2: "json_samplers s2 = json_samplers s1" by (simp add: s2_def)
  have ext: "\<exists>zs. json_samplers s1 = json_samplers s @ zs"
    by (simp add: s1_def)
  have stable: "position (spec_sampler (slot_sampler x)) (json_samplers s1)
      = position (spec_sampler (slot_sampler x)) (json_samplers s)" if "x \<in> set L" for x
  proof -
    from that S have "spec_sampler (slot_sampler x) \<in> set (json_samplers s)" by simp
    with ext show ?thesis by (auto simp: position_append_in)
  qed
  have T1: "json_textures s1 = first_uses (map (\<lambda>sl.
          \<lparr>td_source = imap (slot_texture sl),
           td_sampler = position (spec_sampler (slot_sampler sl)) (json_samplers s1)\<rparr>) L)"
  proof -
    have "map (\<lambda>sl. \<lparr>td_source = imap (slot_texture sl),
           td_sampler = position (spec_sampler (slot_sampler sl)) (json_samplers s1)\<rparr>) L
       = map (\<lambda>sl. \<lparr>td_source = imap (slot_texture sl),
           td_sampler = position (spec_sampler (slot_sampler sl)) (json_samplers s)\<rparr>) L"
      using stable by simp
    moreover have "json_textures s1 = json_textures s" by (simp add: s1_def)
    ultimately show ?thesis using T by (simp only:)
  qed
  have ok1: "tables_ok s1"
  proof -
    from ok have oks: "table_ok (samplerIndexMap s) (map stringify_sampler (json_samplers s))"
      and okt: "table_ok (textureIndexMap s) (map stringify_texture (json_textures s))"
      by (simp_all add: tables_ok_def)
    from table_ok_step [OF oks, of sk] oks okt show ?thesis
      by (simp add: tables_ok_def s1_def sk_def)
  qed
  have tdv: "td = \<lparr>td_source = imap (slot_texture sl),
           td_sampler = position (spec_sampler (slot_sampler sl)) (json_samplers s1)\<rparr>"
    unfolding td_def sk_def tables_ok_sampler [OF ok1] sd_def by (rule refl)
  have newt: "textureIndexMap s1 tk = None \<longleftrightarrow> td \<notin> set (json_textures s1)"
    unfolding tk_def tables_ok_texture [OF ok1] by (rule position_None)
  have T2: "json_textures s2 = first_uses (map (\<lambda>sl.
          \<lparr>td_source = imap (slot_texture sl),
           td_sampler = position (spec_sampler (slot_sampler sl)) (json_samplers s1)\<rparr>) (L @ [sl]))"
    using newt T1 by (simp add: s2_def first_uses_snoc tdv [symmetric])
  from ok' S1 S2 T2 show ?thesis
    by (simp add: visited_def s')
qed

lemma slot_def_visited:
  assumes "visited imap L s" "slot_def imap slot s = (r, s')"
  shows "visited imap (L @ (case slot of None \<Rightarrow> [] | Some sl \<Rightarrow> [sl])) s'"
proof (cases slot)
  case None
  with assms show ?thesis by (simp add: slot_def_def)
next
  case (Some sl)
  obtain d s1 where cd: "createTextureInfoDef imap sl s = (d, s1)"
    by (cases "createTextureInfoDef imap sl s")
  with assms(2) Some have "s' = s1" by (simp add: slot_def_def)
  with createTextureInfoDef_visited [OF assms(1) cd] Some show ?thesis by simp
qed

lemma write_material_visited:
  assumes v: "visited imap L s" and c: "write_material imap m s = (md, s')"
  shows "visited imap (L @ material_slots m) s'"
proof -
  obtain r1 s1 where c1: "slot_def imap (getBaseColorTexture m) s = (r1, s1)"
    by (cases "slot_def imap (getBaseColorTexture m) s")
  obtain r2 s2 where c2: "slot_def imap (getEmissiveTexture m) s1 = (r2, s2)"
    by (cases "slot_def imap (getEmissiveTexture m) s1")
  obtain r3 s3 where c3: "slot_def imap (getNormalTexture m) s2 = (r3, s3)"
    by (cases "slot_def imap (getNormalTexture m) s2")
  obtain r4 s4 where c4: "slot_def imap (getOcclusionTexture m) s3 = (r4, s4)"
    by (cases "slot_def imap (getOcclusionTexture m) s3")
  obtain r5 s5 where c5: "slot_def imap (getMetallicRoughnessTexture m) s4 = (r5, s5)"
    by (cases "slot_def imap (getMetallicRoughnessTexture m) s4")
  note t1 = slot_def_visited [OF v c1]
  note t2 = slot_def_visited [OF t1 c2]
  note t3 = slot_def_visited [OF t2 c3]
  note t4 = slot_def_visited [OF t3 c4]
  note t5 = slot_def_visited [OF t4 c5]
  from c c1 c2 c3 c4 c5 have s': "s' = s5"
    by (auto simp: write_material_def)
  from t5 show ?thesis
    by (simp add: s' material_slots_def)
qed

lemma write_materials_visited:
  assumes "visited imap L s" "write_materials imap ms s = (defs, s')"
  shows "visited imap (L @ all_slots ms) s'"
  using assms
proof (induction ms arbitrary: L s defs s')
  case Nil
  then show ?case by (simp add: all_slots_def)
next
  case (Cons m ms)
  obtain md s1 where c1: "write_material imap m s = (md, s1)"
    by (cases "write_material imap m s")
  obtain ds s2 where c2: "write_materials imap ms s1 = (ds, s2)"
    by (cases "write_materials imap ms s1")
  from Cons.prems(2) c1 c2 have s': "s' = s2" by simp
  from Cons.IH [OF write_material_visited [OF Cons.prems(1) c1] c2] show ?case
    by (simp add: s' all_slots_def)
qed

text \<open>The outcome of the materials pass: the two tables in the order of first use, and
  for every texture slot the index of its texture definition.\<close>

lemma materials_pass:
  assumes w: "write_all_materials doc options = (defs, ts)"
  shows "json_samplers ts
           = first_uses (map (\<lambda>sl. spec_sampler (slot_sampler sl)) (all_slots (listMaterials doc)))"
    and "json_textures ts
           = first_uses (map (spec_texture (listTextures doc) (json_samplers ts))
               (all_slots (listMaterials doc)))"
    and "length defs = length (listMaterials doc)"
    and "\<And>i k sl. i < length (listMaterials doc) \<Longrightarrow>
           get_slot k (listMaterials doc ! i) = Some sl \<Longrightarrow>
           \<exists>d. get_info k (defs ! i) = Some d
             \<and> ti_index d = position (spec_texture (listTextures doc) (json_samplers ts) sl)
                               (json_textures ts)"
proof -
  define imap where "imap = ist_imageIndexMap (write_textures doc options)"
  have im: "imap = image_source (listTextures doc)"
    by (simp add: imap_def imageIndexMap_write_textures)
  note v = write_materials_visited [OF visited_empty [of imap]
      w [unfolded write_all_materials_def, folded imap_def]]
  note st = write_materials_steps [OF good_empty [of imap]
      w [unfolded write_all_materials_def, folded imap_def]]
  from v have ok: "tables_ok ts" by (simp add: visited_def)
  from v show "json_samplers ts
           = first_uses (map (\<lambda>sl. spec_sampler (slot_sampler sl)) (all_slots (listMaterials doc)))"
    by (simp add: visited_def)
  from v show "json_textures ts
           = first_uses (map (spec_texture (listTextures doc) (json_samplers ts))
               (all_slots (listMaterials doc)))"
    by (simp add: visited_def spec_texture_def [abs_def] im)
  from st show "length defs = length (listMaterials doc)" by simp
  fix i k sl
  assume i: "i < length (listMaterials doc)" and g: "get_slot k (listMaterials doc ! i) = Some sl"
  from st i g obtain d where d: "get_info k (defs ! i) = Some d" "resolved imap sl d ts"
    by blast
  from d(2) obtain si t where
    si: "samplerIndexMap ts (sampler_key (slot_sampler sl)) = Some si"
    and t: "ti_index d = Some t"
    and tt: "textureIndexMap ts (stringify_texture
             \<lparr>td_source = imap (slot_texture sl), td_sampler = Some si\<rparr>) = Some t"
    by (auto simp: resolved_def)
  from si have "position (spec_sampler (slot_sampler sl)) (json_samplers ts) = Some si"
    by (simp add: sampler_key_spec tables_ok_sampler [OF ok])
  then have "spec_texture (listTextures doc) (json_samplers ts) sl
      = \<lparr>td_source = imap (slot_texture sl), td_sampler = Some si\<rparr>"
    by (simp add: spec_texture_def im)
  with tt t have "ti_index d
      = position (spec_texture (listTextures doc) (json_samplers ts) sl) (json_textures ts)"
    by (simp add: tables_ok_texture [OF ok])
  with d(1) show "\<exists>d. get_info k (defs ! i) = Some d
             \<and> ti_index d = position (spec_texture (listTextures doc) (json_samplers ts) sl)
                               (json_textures ts)"
    by blast
qed

lemma get_slot_material_slots:
  "get_slot k m = Some sl \<Longrightarrow> sl \<in> set (material_slots m)"
  by (cases k) (auto simp: material_slots_def)

lemma get_slot_all_slots:
  assumes "i < length ms" "get_slot k (ms ! i) = Some sl"
  shows "sl \<in> set (all_slots ms)"
proof -
  from assms(1) have "ms ! i \<in> set ms" by simp
  with get_slot_material_slots [OF assms(2)] show ?thesis
    by (auto simp: all_slots_def)
qed

text \<open>Where the definitions of a texture slot are found in the two tables.\<close>

lemma slot_entry:
  assumes w: "write_all_materials doc options = (defs, ts)"
    and i: "i < length (listMaterials doc)"
    and g: "get_slot k (listMaterials doc ! i) = Some sl"
  shows "\<exists>d t si. get_info k (defs ! i) = Some d \<and> ti_index d = Some t
     \<and> position (spec_texture (listTextures doc) (json_samplers ts) sl) (json_textures ts) = Some t
     \<and> position (spec_sampler (slot_sampler sl)) (json_samplers ts) = Some si
     \<and> t < length (json_textures ts)
     \<and> json_textures ts ! t
          = \<lparr>td_source = image_source (listTextures doc) (slot_texture sl), td_sampler = Some si\<rparr>
     \<and> si < length (json_samplers ts)
     \<and> json_samplers ts ! si = spec_sampler (slot_sampler sl)"
proof -
  note p = materials_pass [OF w]
  from get_slot_all_slots [OF i g] have m: "sl \<in> set (all_slots (listMaterials doc))" .
  from p(4) [OF i g] obtain d where d: "get_info k (defs ! i) = Some d"
    "ti_index d = position (spec_texture (listTextures doc) (json_samplers ts) sl) (json_textures ts)"
    by blast
  from m have "spec_sampler (slot_sampler sl) \<in> set (json_samplers ts)"
    unfolding p(1) by simp
  then obtain si where si: "position (spec_sampler (slot_sampler sl)) (json_samplers ts) = Some si"
    using position_None [of "spec_sampler (slot_sampler sl)" "json_samplers ts"] by auto
  from m have "spec_texture (listTextures doc) (json_samplers ts) sl \<in> set (json_textures ts)"
    by (subst p(2)) simp
  then obtain t where
    t: "position (spec_texture (listTextures doc) (json_samplers ts) sl) (json_textures ts) = Some t"
    using position_None [of "spec_texture (listTextures doc) (json_samplers ts) sl"
        "json_textures ts"] by auto
  from position_Some [OF si] have 1: "si < length (json_samplers ts)"
    "json_samplers ts ! si = spec_sampler (slot_sampler sl)" by simp_all
  from position_Some [OF t] si have 2: "t < length (json_textures ts)"
    "json_textures ts ! t
       = \<lparr>td_source = image_source (listTextures doc) (slot_texture sl), td_sampler = Some si\<rparr>"
    by (simp_all add: spec_texture_def)
  from d t si 1 2 show ?thesis by simp
qed

lemma slot_pair:
  assumes w: "write_all_materials doc options = (defs, ts)"
    and i: "i < length (listMaterials doc)" and j: "j < length (listMaterials doc)"
    and g1: "get_slot k1 (listMaterials doc ! i) = Some sl1"
    and g2: "get_slot k2 (listMaterials doc ! j) = Some sl2"
  shows "\<exists>d1 d2 t1 t2. get_info k1 (defs ! i) = Some d1 \<and> get_info k2 (defs ! j) = Some d2
     \<and> ti_index d1 = Some t1 \<and> ti_index d2 = Some t2
     \<and> t1 < length (json_textures ts) \<and> t2 < length (json_textures ts)
     \<and> (td_sampler (json_textures ts ! t1) = td_sampler (json_textures ts ! t2)
          \<longleftrightarrow> spec_sampler (slot_sampler sl1) = spec_sampler (slot_sampler sl2))
     \<and> (t1 = t2
          \<longleftrightarrow> image_source (listTextures doc) (slot_texture sl1)
                = image_source (listTextures doc) (slot_texture sl2)
              \<and> spec_sampler (slot_sampler sl1) = spec_sampler (slot_sampler sl2))"
proof -
  from slot_entry [OF w i g1] obtain d1 t1 si1 where
    a: "get_info k1 (defs ! i) = Some d1" "ti_index d1 = Some t1"
      "position (spec_texture (listTextures doc) (json_samplers ts) sl1) (json_textures ts) = Some t1"
      "position (spec_sampler (slot_sampler sl1)) (json_samplers ts) = Some si1"
      "t1 < length (json_textures ts)"
      "json_textures ts ! t1
          = \<lparr>td_source = image_source (listTextures doc) (slot_texture sl1), td_sampler = Some si1\<rparr>"
      "si1 < length (json_samplers ts)"
      "json_samplers ts ! si1 = spec_sampler (slot_sampler sl1)"
    by blast
  from slot_entry [OF w j g2] obtain d2 t2 si2 where
    b: "get_info k2 (defs ! j) = Some d2" "ti_index d2 = Some t2"
      "position (spec_texture (listTextures doc) (json_samplers ts) sl2) (json_textures ts) = Some t2"
      "position (spec_sampler (slot_sampler sl2)) (json_samplers ts) = Some si2"
      "t2 < length (json_textures ts)"
      "json_textures ts ! t2
          = \<lparr>td_source = image_source (listTextures doc) (slot_texture sl2), td_sampler = Some si2\<rparr>"
      "si2 < length (json_samplers ts)"
      "json_samplers ts ! si2 = spec_sampler (slot_sampler sl2)"
    by blast
  have s: "si1 = si2 \<longleftrightarrow> spec_sampler (slot_sampler sl1) = spec_sampler (slot_sampler sl2)"
    using a(4,8) b(4,8) by auto
  have 1: "td_sampler (json_textures ts ! t1) = td_sampler (json_textures ts ! t2)
          \<longleftrightarrow> spec_sampler (slot_sampler sl1) = spec_sampler (slot_sampler sl2)"
    using s by (simp add: a(6) b(6))
  have 2: "t1 = t2
          \<longleftrightarrow> image_source (listTextures doc) (slot_texture sl1)
                = image_source (listTextures doc) (slot_texture sl2)
              \<and> spec_sampler (slot_sampler sl1) = spec_sampler (slot_sampler sl2)"
  proof
    assume "t1 = t2"
    with a(6) b(6) have "image_source (listTextures doc) (slot_texture sl1)
          = image_source (listTextures doc) (slot_texture sl2)" "si1 = si2" by simp_all
    with s show "image_source (listTextures doc) (slot_texture sl1)
                = image_source (listTextures doc) (slot_texture sl2)
              \<and> spec_sampler (slot_sampler sl1) = spec_sampler (slot_sampler sl2)" by simp
  next
    assume "image_source (listTextures doc) (slot_texture sl1)
                = image_source (listTextures doc) (slot_texture sl2)
              \<and> spec_sampler (slot_sampler sl1) = spec_sampler (slot_sampler sl2)"
    then have "spec_texture (listTextures doc) (json_samplers ts) sl1
        = spec_texture (listTextures doc) (json_samplers ts) sl2"
      by (simp add: spec_texture_def)
    with a(3) b(3) show "t1 = t2" by simp
  qed
  from a(1,2,5) b(1,2,5) 1 2 show ?thesis by blast
qed

lemma written_materials:
  assumes "GLTFWriter_write ext doc options = Inr (nd, w)"
  obtains defs ts where "write_all_materials doc options = (defs, ts)"
    "samplers_of nd = json_samplers ts" "textures_of nd = json_textures ts"
    "materials_of nd = defs"
proof -
  from assms obtain s where j: "json nd = clean (root_json doc options s)"
    by (rule write_Inr_json)
  obtain defs ts where m: "write_all_materials doc options = (defs, ts)"
    by (cases "write_all_materials doc options")
  note c = clean_root_json_materials [OF m, of s]
  show ?thesis
    by (rule that [OF m])
       (simp_all add: samplers_of_def textures_of_def materials_of_def j c)
qed

text \<open>C8. Within one run of the writer, \<open>json.samplers\<close> holds exactly one entry for
  each distinct sampler definition of the texture slots of the listed materials, and
  \<open>json.textures\<close> exactly one entry for each distinct pair of image source and
  sampler index. The texture-info definition emitted for a slot points at the texture
  entry with the image of the slot's texture and the index of the slot's sampler
  definition. For any two slots the texture entries carry the same sampler index exactly
  when the sampler definitions are equal (as they are for structurally equal sampler
  data), and the texture-info definitions carry the same texture index exactly when
  image source and sampler definition are both equal.\<close>

theorem sampler_and_texture_dedup:
  assumes w: "GLTFWriter_write ext doc options = Inr (nd, w)"
  shows "distinct (samplers_of nd)
    \<and> set (samplers_of nd)
        = (\<lambda>sl. spec_sampler (slot_sampler sl)) ` set (all_slots (listMaterials doc))
    \<and> distinct (textures_of nd)
    \<and> set (textures_of nd)
        = spec_texture (listTextures doc) (samplers_of nd) ` set (all_slots (listMaterials doc))
    \<and> (\<forall>i k sl. i < length (listMaterials doc)
            \<and> get_slot k (listMaterials doc ! i) = Some sl \<longrightarrow>
          (\<exists>d t si. get_info k (materials_of nd ! i) = Some d \<and> ti_index d = Some t
             \<and> t < length (textures_of nd)
             \<and> textures_of nd ! t
                  = \<lparr>td_source = image_source (listTextures doc) (slot_texture sl),
                     td_sampler = Some si\<rparr>
             \<and> si < length (samplers_of nd)
             \<and> samplers_of nd ! si = spec_sampler (slot_sampler sl)))
    \<and> (\<forall>i j k1 k2 sl1 sl2.
          i < length (listMaterials doc) \<and> j < length (listMaterials doc)
          \<and> get_slot k1 (listMaterials doc ! i) = Some sl1
          \<and> get_slot k2 (listMaterials doc ! j) = Some sl2 \<longrightarrow>
          (\<exists>d1 d2 t1 t2.
              get_info k1 (materials_of nd ! i) = Some d1
            \<and> get_info k2 (materials_of nd ! j) = Some d2
            \<and> ti_index d1 = Some t1 \<and> ti_index d2 = Some t2
            \<and> t1 < length (textures_of nd) \<and> t2 < length (textures_of nd)
            \<and> (td_sampler (textures_of nd ! t1) = td_sampler (textures_of nd ! t2)
                 \<longleftrightarrow> spec_sampler (slot_sampler sl1) = spec_sampler (slot_sampler sl2))
            \<and> (t1 = t2
                 \<longleftrightarrow> image_source (listTextures doc) (slot_texture sl1)
                       = image_source (listTextures doc) (slot_texture sl2)
                     \<and> spec_sampler (slot_sampler sl1) = spec_sampler (slot_sampler sl2))))"
proof -
  from w obtain defs ts where m: "write_all_materials doc options = (defs, ts)"
    and r: "samplers_of nd = json_samplers ts" "textures_of nd = json_textures ts"
      "materials_of nd = defs"
    by (rule written_materials)
  note p = materials_pass [OF m]
  have 1: "distinct (json_samplers ts)" unfolding p(1) by simp
  have 2: "set (json_samplers ts)
        = (\<lambda>sl. spec_sampler (slot_sampler sl)) ` set (all_slots (listMaterials doc))"
    unfolding p(1) by simp
  have 3: "distinct (json_textures ts)" by (subst p(2)) simp
  have 4: "set (json_textures ts)
        = spec_texture (listTextures doc) (json_samplers ts) ` set (all_slots (listMaterials doc))"
    by (subst p(2)) simp
  have 5: "\<exists>d t si. get_info k (defs ! i) = Some d \<and> ti_index d = Some t
             \<and> t < length (json_textures ts)
             \<and> json_textures ts ! t
                  = \<lparr>td_source = image_source (listTextures doc) (slot_texture sl),
                     td_sampler = Some si\<rparr>
             \<and> si < length (json_samplers ts)
             \<and> json_samplers ts ! si = spec_sampler (slot_sampler sl)"
    if "i < length (listMaterials doc) \<and> get_slot k (listMaterials doc ! i) = Some sl"
    for i k sl
    using slot_entry [OF m conjunct1 [OF that] conjunct2 [OF that]] by blast
  have 6: "\<exists>d1 d2 t1 t2.
              get_info k1 (defs ! i) = Some d1
            \<and> get_info k2 (defs ! j) = Some d2
            \<and> ti_index d1 = Some t1 \<and> ti_index d2 = Some t2
            \<and> t1 < length (json_textures ts) \<and> t2 < length (json_textures ts)
            \<and> (td_sampler (json_textures ts ! t1) = td_sampler (json_textures ts ! t2)
                 \<longleftrightarrow> spec_sampler (slot_sampler sl1) = spec_sampler (slot_sampler sl2))
            \<and> (t1 = t2
                 \<longleftrightarrow> image_source (listTextures doc) (slot_texture sl1)
                       = image_source (listTextures doc) (slot_texture sl2)
                     \<and> spec_sampler (slot_sampler sl1) = spec_sampler (slot_sampler sl2))"
    if "i < length (listMaterials doc) \<and> j < length (listMaterials doc)
          \<and> get_slot k1 (listMaterials doc ! i) = Some sl1
          \<and> get_slot k2 (listMaterials doc ! j) = Some sl2"
    for i j k1 k2 sl1 sl2
  proof -
    from that have a: "i < length (listMaterials doc)" "j < length (listMaterials doc)"
      "get_slot k1 (listMaterials doc ! i) = Some sl1"
      "get_slot k2 (listMaterials doc ! j) = Some sl2" by simp_all
    show ?thesis by (rule slot_pair [OF m a])
  qed
  show ?thesis
    unfolding r
    apply (intro conjI allI impI)
         apply (rule 1)
        apply (rule 2)
       apply (rule 3)
      apply (rule 4)
     apply (erule 5)
    apply (erule 6)
    done
qed

lemma shared_sampler_write:
  "\<exists>nd w. GLTFWriter_write sample_externals shared_sampler_document external_options = Inr (nd, w)"
  by (simp add: GLTFWriter_write_def write_buffers_def shared_sampler_document_def empty_document_def)

theorem sampler_and_texture_dedup_witness:
  "case GLTFWriter_write sample_externals shared_sampler_document external_options of
     Inl e \<Rightarrow> False
   | Inr (nd, w) \<Rightarrow>
      (\<exists>d1 d2 t. get_info BaseColor (materials_of nd ! 0) = Some d1
              \<and> get_info BaseColor (materials_of nd ! 1) = Some d2
              \<and> ti_index d1 = Some t \<and> ti_index d2 = Some t
              \<and> textures_of nd ! t = \<lparr>td_source = Some 0, td_sampler = Some 0\<rparr>)
      \<and> samplers_of nd = [\<lparr>sd_magFilter = None, sd_minFilter = Some 9729,
                           sd_wrapS = 10497, sd_wrapT = 10497\<rparr>]"
proof -
  obtain nd w where
    eq: "GLTFWriter_write sample_externals shared_sampler_document external_options = Inr (nd, w)"
    using shared_sampler_write by blast
  have mats: "listMaterials shared_sampler_document = [sample_material 0, sample_material 1]"
    by (simp add: shared_sampler_document_def)
  have slots: "all_slots (listMaterials shared_sampler_document) = [sample_slot, sample_slot]"
    by (simp add: mats all_slots_def material_slots_def sample_material_def)
  have sp: "spec_sampler (slot_sampler sample_slot)
      = \<lparr>sd_magFilter = None, sd_minFilter = Some 9729, sd_wrapS = 10497, sd_wrapT = 10497\<rparr>"
    by (simp add: spec_sampler_def sample_slot_def)
  have src: "image_source (listTextures shared_sampler_document) (slot_texture sample_slot) = Some 0"
    by (simp add: image_source_def shared_sampler_document_def sample_slot_def sample_texture_def)
  note t = sampler_and_texture_dedup [OF eq]
  from t have d: "distinct (samplers_of nd)" by (elim conjE)
  from t have s: "set (samplers_of nd)
        = (\<lambda>sl. spec_sampler (slot_sampler sl)) `
            set (all_slots (listMaterials shared_sampler_document))" by (elim conjE)
  from s have "set (samplers_of nd) = {spec_sampler (slot_sampler sample_slot)}"
    by (simp add: slots)
  with d have S: "samplers_of nd = [spec_sampler (slot_sampler sample_slot)]"
    by (cases "samplers_of nd"; cases "tl (samplers_of nd)") auto
  from t have e: "\<forall>i k sl. i < length (listMaterials shared_sampler_document)
            \<and> get_slot k (listMaterials shared_sampler_document ! i) = Some sl \<longrightarrow>
          (\<exists>d t si. get_info k (materials_of nd ! i) = Some d \<and> ti_index d = Some t
             \<and> t < length (textures_of nd)
             \<and> textures_of nd ! t
                  = \<lparr>td_source = image_source (listTextures shared_sampler_document)
                                   (slot_texture sl),
                     td_sampler = Some si\<rparr>
             \<and> si < length (samplers_of nd)
             \<and> samplers_of nd ! si = spec_sampler (slot_sampler sl))" by (elim conjE)
  from t have p: "\<forall>i j k1 k2 sl1 sl2.
          i < length (listMaterials shared_sampler_document)
          \<and> j < length (listMaterials shared_sampler_document)
          \<and> get_slot k1 (listMaterials shared_sampler_document ! i) = Some sl1
          \<and> get_slot k2 (listMaterials shared_sampler_document ! j) = Some sl2 \<longrightarrow>
          (\<exists>d1 d2 t1 t2.
              get_info k1 (materials_of nd ! i) = Some d1
            \<and> get_info k2 (materials_of nd ! j) = Some d2
            \<and> ti_index d1 = Some t1 \<and> ti_index d2 = Some t2
            \<and> t1 < length (textures_of nd) \<and> t2 < length (textures_of nd)
            \<and> (td_sampler (textures_of nd ! t1) = td_sampler (textures_of nd ! t2)
                 \<longleftrightarrow> spec_sampler (slot_sampler sl1) = spec_sampler (slot_sampler sl2))
            \<and> (t1 = t2
                 \<longleftrightarrow> image_source (listTextures shared_sampler_document) (slot_texture sl1)
                       = image_source (listTextures shared_sampler_document) (slot_texture sl2)
                     \<and> spec_sampler (slot_sampler sl1) = spec_sampler (slot_sampler sl2)))"
    by (elim conjE)
  from p [rule_format, of 0 1 BaseColor sample_slot BaseColor sample_slot]
  obtain d1 d2 t1 where
    a: "get_info BaseColor (materials_of nd ! 0) = Some d1"
    "get_info BaseColor (materials_of nd ! 1) = Some d2"
    "ti_index d1 = Some t1" "ti_index d2 = Some t1"
    by (auto simp: mats sample_material_def)
  from e [rule_format, of 0 BaseColor sample_slot] a(1,3)
  obtain si where b: "textures_of nd ! t1 = \<lparr>td_source = Some 0, td_sampler = Some si\<rparr>"
    "si < length (samplers_of nd)"
    by (auto simp: mats sample_material_def src)
  from b(2) S have "si = 0" by simp
  with a b(1) S sp show ?thesis
    unfolding eq by auto
qed

section \<open>GLB output\<close>

text \<open>C3, as amended. With \<open>isGLB\<close> true, \<open>json.buffers\<close> holds one definition for
  each listed buffer that has bytes, in listing order, with the length of its raw bytes.
  When \<open>embedded\<close> is false no definition has a \<open>uri\<close> field, and when one buffer is
  emitted its raw bytes are the only resource, stored under the sentinel key. The
  \<open>embedded\<close> flag is not ignored under \<open>isGLB\<close>: when it is true every definition
  carries the base64 data URI of the raw bytes of its buffer and there is no resource.\<close>

theorem glb_buffer_under_sentinel:
  assumes "GLTFWriter_write ext doc options = Inr (nd, w)" and "isGLB options"
  shows "buffers_of nd
           = map (\<lambda>b. \<lparr>bd_prop = createPropertyDef b,
                        bd_uri = (if embedded options
                                  then Some (''data:application/octet-stream;base64,''
                                     @ encodeBufferToBase64 ext (buffer_bytes ext doc options b))
                                  else None),
                        bd_byteLength = length (buffer_bytes ext doc options b)\<rparr>)
               (emitted_buffers ext doc options)
     \<and> (embedded options \<longrightarrow> nd_resources nd = [])
     \<and> (\<not> embedded options \<longrightarrow>
           (emitted_buffers ext doc options = [] \<longrightarrow> nd_resources nd = [])
         \<and> (\<forall>b. emitted_buffers ext doc options = [b] \<longrightarrow>
                nd_resources nd = [(GLB_BUFFER, buffer_bytes ext doc options b)]))"
proof -
  from assms(1) obtain s where s: "write_buffers ext doc options = Inr s"
    and r: "buffers_of nd = json_buffers s" "nd_resources nd = resources s"
    by (rule written_documents)
  note g = glb_emitted [OF assms(2) s [unfolded write_buffers_def]]
  from g have 1: "buffers_of nd
           = map (\<lambda>b. \<lparr>bd_prop = createPropertyDef b,
                        bd_uri = (if embedded options
                                  then Some (''data:application/octet-stream;base64,''
                                     @ encodeBufferToBase64 ext (buffer_bytes ext doc options b))
                                  else None),
                        bd_byteLength = length (buffer_bytes ext doc options b)\<rparr>)
               (emitted_buffers ext doc options)"
    by (simp add: r emitted_buffers_def)
  from g have 2: "nd_resources nd
           = (if embedded options \<or> emitted_buffers ext doc options = [] then []
              else [(GLB_BUFFER, buffer_bytes ext doc options
                       (last (emitted_buffers ext doc options)))])"
    by (simp add: r emitted_buffers_def)
  have 3: "embedded options \<longrightarrow> nd_resources nd = []"
    using 2 by simp
  have 4: "\<not> embedded options \<longrightarrow>
           (emitted_buffers ext doc options = [] \<longrightarrow> nd_resources nd = [])
         \<and> (\<forall>b. emitted_buffers ext doc options = [b] \<longrightarrow>
                nd_resources nd = [(GLB_BUFFER, buffer_bytes ext doc options b)])"
    using 2 by simp
  from 1 3 4 show ?thesis by (intro conjI)
qed

text \<open>A document with one buffer of 4 bytes, written as GLB with and without
  \<open>embedded\<close>: with the flag the buffer has a data URI and nothing is stored under
  the sentinel; without it the buffer has no URI and its bytes are stored under the
  sentinel. The two native documents differ.\<close>

theorem embedded_not_ignored_counterexample:
  "GLTFWriter_write sample_externals single_buffer_document glb_embedded_options
     = Inr (\<lparr>json = single_buffer_json
                (Some (''data:application/octet-stream;base64,''
                       @ encodeBufferToBase64 sample_externals [1, 2, 3, 4])),
             nd_resources = []\<rparr>, [])
   \<and> GLTFWriter_write sample_externals single_buffer_document glb_options
     = Inr (\<lparr>json = single_buffer_json None,
             nd_resources = [(''@glb.bin'', [1, 2, 3, 4])]\<rparr>, [])
   \<and> GLTFWriter_write sample_externals single_buffer_document glb_embedded_options
     \<noteq> GLTFWriter_write sample_externals single_buffer_document glb_options"
  by (simp add: writer_eval sample_defs single_buffer_document_def single_buffer_json_def
      glb_embedded_options_def)

lemma image_first_emitted:
  "emitted_buffers sample_externals image_first_document glb_options
     = [sample_buffer ''buf''
         [ParentRoot, ParentAccessor (byte_accessor 0 ''other'' [1, 2, 3, 4]),
          ParentAccessor (byte_accessor 1 ''indices'' [0, 1, 2, 0])]]
   \<and> buffer_bytes sample_externals image_first_document glb_options
        (sample_buffer ''buf''
         [ParentRoot, ParentAccessor (byte_accessor 0 ''other'' [1, 2, 3, 4]),
          ParentAccessor (byte_accessor 1 ''indices'' [0, 1, 2, 0])])
     = [0, 1, 2, 0, 1, 2, 3, 4, 7, 8, 9]"
  by (simp add: emitted_buffers_def buffer_bytes_def usage_of_def padded_blob_def
      writer_eval sample_defs image_first_document_def)

theorem glb_buffer_under_sentinel_witness:
  "case GLTFWriter_write sample_externals image_first_document glb_options of
     Inl e \<Rightarrow> False
   | Inr (nd, w) \<Rightarrow>
       buffers_of nd = [\<lparr>bd_prop = \<lparr>def_name = Some ''buf'', def_extras = None,
                                     def_extensions = None\<rparr>,
                          bd_uri = None, bd_byteLength = 11\<rparr>]
     \<and> nd_resources nd = [(''@glb.bin'', [0, 1, 2, 0, 1, 2, 3, 4, 7, 8, 9])]"
proof -
  let ?b = "sample_buffer ''buf''
         [ParentRoot, ParentAccessor (byte_accessor 0 ''other'' [1, 2, 3, 4]),
          ParentAccessor (byte_accessor 1 ''indices'' [0, 1, 2, 0])]"
  have o: "isGLB glb_options" "\<not> embedded glb_options"
    by (simp_all add: glb_options_def)
  note e = image_first_emitted
  have p: "createPropertyDef (sample_buffer ''buf'' ps)
      = \<lparr>def_name = Some ''buf'', def_extras = None, def_extensions = None\<rparr>" for ps
    by (simp add: createPropertyDef_def sample_buffer_def)
  from glb_buffer_under_sentinel [OF image_first_run o(1)] o(2) e
  have "buffers_of image_first_native
      = [\<lparr>bd_prop = createPropertyDef ?b, bd_uri = None, bd_byteLength = 11\<rparr>]"
    and "nd_resources image_first_native = [(GLB_BUFFER, [0, 1, 2, 0, 1, 2, 3, 4, 7, 8, 9])]"
    by simp_all
  then show ?thesis
    unfolding image_first_run by (simp add: p GLB_BUFFER_def)
qed

section \<open>Skipped buffers\<close>

lemma filter_nth_counted:
  assumes "i < length xs" "P (xs ! i)"
  shows "filter P xs ! length (filter P (take i xs)) = xs ! i"
proof -
  from assms(1) have "xs = take i xs @ xs ! i # drop (Suc i) xs"
    by (rule id_take_nth_drop)
  then have "filter P xs = filter P (take i xs) @ xs ! i # filter P (drop (Suc i) xs)"
    using assms(2) by (metis filter.simps(2) filter_append)
  then show ?thesis by (simp add: nth_append)
qed

lemma filter_counted_less:
  assumes "i < length xs" "P (xs ! i)"
  shows "length (filter P (take i xs)) < length (filter P xs)"
proof -
  from assms(1) have "xs = take i xs @ xs ! i # drop (Suc i) xs"
    by (rule id_take_nth_drop)
  then have "filter P xs = filter P (take i xs) @ xs ! i # filter P (drop (Suc i) xs)"
    using assms(2) by (metis filter.simps(2) filter_append)
  then show ?thesis by simp
qed

lemma pack_buffer_unreferenced:
  assumes "bufferParents b = []" "imageData = []"
  shows "pack_buffer ext links images imageData b s = Inr ([], 0, s)"
  using assms
  by (simp add: pack_buffer_def pack_accessors_def pack_concat_def empty_usage_def)

text \<open>The views packed for the buffers processed so far: one group for each buffer, in the
  packing order of its accessors, every view carrying the number of buffers emitted before
  the buffer.\<close>

lemma views_indexed:
  assumes run: "foldE (buffer_step ext doc options) bs (initial_buffer_state doc options) = Inr t"
  shows "\<exists>vss. drop (image_view_count doc options) (json_bufferViews t) = concat vss
     \<and> length vss = length bs
     \<and> (\<forall>i<length bs.
           (\<forall>v\<in>set (vss ! i). bv_buffer v
               = length (filter (\<lambda>b. buffer_bytes ext doc options b \<noteq> []) (take i bs)))
         \<and> map bv_target (vss ! i)
               = view_targets (usage_of (gather_links (getLinks doc) Map.empty) (bs ! i)))"
proof -
  let ?L = "gather_links (getLinks doc) Map.empty"
  let ?T = "write_textures doc options"
  let ?n = "length (ist_bufferViews ?T)"
  let ?E = "filter (\<lambda>b. buffer_bytes ext doc options b \<noteq> [])"
  let ?P = "\<lambda>ys t. ?n \<le> length (json_bufferViews t)
     \<and> length (json_buffers t) = length (?E ys)
     \<and> (\<exists>vss. drop ?n (json_bufferViews t) = concat vss \<and> length vss = length ys
          \<and> (\<forall>i<length ys.
                (\<forall>v\<in>set (vss ! i). bv_buffer v = length (?E (take i ys)))
              \<and> map bv_target (vss ! i) = view_targets (usage_of ?L (ys ! i))))"
  have below: "image_views_below ?n (ist_images ?T)"
    using write_textures_ok(1) [where doc = doc and options = options] by (simp add: images_ok_def)
  have "?P ([] @ bs) t"
  proof (rule foldE_prefix [OF run, where P = ?P])
    show "?P [] (initial_buffer_state doc options)"
      by (simp add: initial_buffer_state_def)
  next
    fix ys x u u'
    assume inv: "?P ys u" and st: "buffer_step ext doc options x u = Inr u'"
    from inv have n: "?n \<le> length (json_bufferViews u)"
      and lb: "length (json_buffers u) = length (?E ys)" by simp_all
    from inv obtain vss where vss: "drop ?n (json_bufferViews u) = concat vss"
      "length vss = length ys"
      "\<forall>i<length ys. (\<forall>v\<in>set (vss ! i). bv_buffer v = length (?E (take i ys)))
              \<and> map bv_target (vss ! i) = view_targets (usage_of ?L (ys ! i))"
      by blast
    from write_buffer_Inr [OF below n st [unfolded buffer_step_def]] obtain vs where
      vs: "map bv_target vs = view_targets (usage_of ?L x)"
        "\<forall>v\<in>set vs. bv_buffer v = length (json_buffers u)"
        "drop ?n (json_bufferViews u') = drop ?n (json_bufferViews u) @ vs"
      by blast
    have n': "?n \<le> length (json_bufferViews u')"
    proof (rule ccontr)
      assume "\<not> ?n \<le> length (json_bufferViews u')"
      then have "drop ?n (json_bufferViews u') = []" by simp
      with vs(3) have "drop ?n (json_bufferViews u) = []" by simp
      with n have "length (json_bufferViews u) = ?n" by simp
      moreover from write_buffer_Inr [OF below n st [unfolded buffer_step_def]]
      have "list_all2 same_but_offset (take ?n (json_bufferViews u)) (take ?n (json_bufferViews u'))"
        by blast
      then have "length (take ?n (json_bufferViews u)) = length (take ?n (json_bufferViews u'))"
        by (rule list_all2_lengthD)
      ultimately show False using \<open>\<not> ?n \<le> length (json_bufferViews u')\<close> by simp
    qed
    have lb': "length (json_buffers u') = length (?E (ys @ [x]))"
    proof (cases "buffer_bytes ext doc options x = []")
      case True
      with buffer_step_skips [OF st True] lb show ?thesis by simp
    next
      case False
      with buffer_step_emits(1) [OF st False] lb show ?thesis by simp
    qed
    have "drop ?n (json_bufferViews u') = concat (vss @ [vs])"
      using vs(3) vss(1) by simp
    moreover have "length (vss @ [vs]) = length (ys @ [x])"
      using vss(2) by simp
    moreover have "\<forall>i<length (ys @ [x]).
                (\<forall>v\<in>set ((vss @ [vs]) ! i). bv_buffer v = length (?E (take i (ys @ [x]))))
              \<and> map bv_target ((vss @ [vs]) ! i) = view_targets (usage_of ?L ((ys @ [x]) ! i))"
    proof (intro allI impI)
      fix i assume i: "i < length (ys @ [x])"
      show "(\<forall>v\<in>set ((vss @ [vs]) ! i). bv_buffer v = length (?E (take i (ys @ [x]))))
              \<and> map bv_target ((vss @ [vs]) ! i) = view_targets (usage_of ?L ((ys @ [x]) ! i))"
      proof (cases "i < length ys")
        case True
        with vss(2,3) show ?thesis by (simp add: nth_append)
      next
        case False
        with i have "i = length ys" by simp
        with vs(1,2) vss(2) lb show ?thesis by (simp add: nth_append)
      qed
    qed
    ultimately show "?P (ys @ [x]) u'"
      using n' lb' by blast
  qed
  then show ?thesis
    by (simp add: image_view_count_eq)
qed

text \<open>C9, as amended. When the bytes packed for a listed buffer have length zero, the
  callback returns without error: it logs the warning and adds no entry to
  \<open>json.buffers\<close> and no resource; a buffer referenced by no accessor, when no image
  bytes are recorded, leaves the tables as they were. The write goes on with the remaining
  buffers: it returns their first fatal error, or the native document when they are
  written. In that document the warning is in the log, \<open>json.buffers\<close> holds the listed
  buffers that have bytes, in listing order, and the buffer views packed for each of these
  carry the index of its entry in \<open>json.buffers\<close> (the views after those reserved for
  images fall into one group for each listed buffer, with the targets of its packing
  order).\<close>

theorem empty_buffer_is_skipped:
  assumes dec: "listBuffers doc = pre @ b # post"
    and pre: "foldE (buffer_step ext doc options) pre (initial_buffer_state doc options) = Inr s"
    and pk: "pack_buffer ext (gather_links (getLinks doc) Map.empty)
               (ist_images (write_textures doc options))
               (ist_imageData (write_textures doc options)) b s = Inr (buffers, 0, s1)"
  shows "buffer_step ext doc options b s
           = Inr (s1\<lparr>logged := logged s @ [empty_buffer_warning ext b]\<rparr>)
    \<and> json_buffers s1 = json_buffers s \<and> resources s1 = resources s
    \<and> (bufferParents b = [] \<and> (isGLB options \<or> embedded options \<longrightarrow> listTextures doc = [])
          \<longrightarrow> s1 = s)
    \<and> GLTFWriter_write ext doc options
        = (case foldE (buffer_step ext doc options) post
                  (s1\<lparr>logged := logged s @ [empty_buffer_warning ext b]\<rparr>) of
             Inl e \<Rightarrow> Inl e
           | Inr t \<Rightarrow> Inr (\<lparr>json = clean (root_json doc options t),
                            nd_resources = resources t\<rparr>, logged t))
    \<and> (\<forall>nd w. GLTFWriter_write ext doc options = Inr (nd, w) \<longrightarrow>
          empty_buffer_warning ext b \<in> set w
        \<and> b \<notin> set (emitted_buffers ext doc options)
        \<and> map bd_prop (buffers_of nd)
             = map createPropertyDef (emitted_buffers ext doc options)
        \<and> (\<exists>vss. drop (image_view_count doc options) (bufferViews_of nd) = concat vss
              \<and> length vss = length (listBuffers doc)
              \<and> (\<forall>i<length (listBuffers doc).
                    map bv_target (vss ! i)
                      = view_targets (usage_of (gather_links (getLinks doc) Map.empty)
                                        (listBuffers doc ! i))
                  \<and> (buffer_bytes ext doc options (listBuffers doc ! i) \<noteq> [] \<longrightarrow>
                      length (filter (\<lambda>x. buffer_bytes ext doc options x \<noteq> [])
                                (take i (listBuffers doc))) < length (buffers_of nd)
                    \<and> bd_prop (buffers_of nd !
                          length (filter (\<lambda>x. buffer_bytes ext doc options x \<noteq> [])
                                    (take i (listBuffers doc))))
                        = createPropertyDef (listBuffers doc ! i)
                    \<and> (\<forall>v\<in>set (vss ! i). bv_buffer v
                          = length (filter (\<lambda>x. buffer_bytes ext doc options x \<noteq> [])
                                      (take i (listBuffers doc))))))))"
proof -
  let ?s' = "s1\<lparr>logged := logged s @ [empty_buffer_warning ext b]\<rparr>"
  let ?E = "filter (\<lambda>x. buffer_bytes ext doc options x \<noteq> [])"
  from pack_buffer_frame [OF pk] have f: "json_buffers s1 = json_buffers s"
    "resources s1 = resources s" "logged s1 = logged s" "0 = length (concat buffers)"
    by simp_all
  from pack_buffer_bytes [OF pk] f(4) have e: "buffer_bytes ext doc options b = []"
    by simp
  have 1: "buffer_step ext doc options b s = Inr ?s'"
    using pk f(3) by (simp add: buffer_step_def write_buffer_def)
  have 2: "bufferParents b = [] \<and> (isGLB options \<or> embedded options \<longrightarrow> listTextures doc = [])
          \<longrightarrow> s1 = s"
  proof
    assume a: "bufferParents b = [] \<and> (isGLB options \<or> embedded options \<longrightarrow> listTextures doc = [])"
    then have "ist_imageData (write_textures doc options) = []"
      by (auto simp: imageData_write_textures)
    from pack_buffer_unreferenced [OF conjunct1 [OF a] this, of ext
        "gather_links (getLinks doc) Map.empty" "ist_images (write_textures doc options)" s] pk
    show "s1 = s" by simp
  qed
  have 3: "GLTFWriter_write ext doc options
        = (case foldE (buffer_step ext doc options) post ?s' of
             Inl e \<Rightarrow> Inl e
           | Inr t \<Rightarrow> Inr (\<lparr>json = clean (root_json doc options t),
                            nd_resources = resources t\<rparr>, logged t))"
    using pre 1 by (simp add: GLTFWriter_write_def write_buffers_def dec foldE_append)
  have 4: "empty_buffer_warning ext b \<in> set w
        \<and> b \<notin> set (emitted_buffers ext doc options)
        \<and> map bd_prop (buffers_of nd)
             = map createPropertyDef (emitted_buffers ext doc options)
        \<and> (\<exists>vss. drop (image_view_count doc options) (bufferViews_of nd) = concat vss
              \<and> length vss = length (listBuffers doc)
              \<and> (\<forall>i<length (listBuffers doc).
                    map bv_target (vss ! i)
                      = view_targets (usage_of (gather_links (getLinks doc) Map.empty)
                                        (listBuffers doc ! i))
                  \<and> (buffer_bytes ext doc options (listBuffers doc ! i) \<noteq> [] \<longrightarrow>
                      length (?E (take i (listBuffers doc))) < length (buffers_of nd)
                    \<and> bd_prop (buffers_of nd ! length (?E (take i (listBuffers doc))))
                        = createPropertyDef (listBuffers doc ! i)
                    \<and> (\<forall>v\<in>set (vss ! i). bv_buffer v
                          = length (?E (take i (listBuffers doc)))))))"
    if w: "GLTFWriter_write ext doc options = Inr (nd, w)" for nd w
  proof -
    from w obtain t where t: "write_buffers ext doc options = Inr t"
      and r: "bufferViews_of nd = json_bufferViews t" "buffers_of nd = json_buffers t"
        "w = logged t"
      by (rule written_documents)
    from t 3 w have post: "foldE (buffer_step ext doc options) post ?s' = Inr t"
      by (simp add: GLTFWriter_write_def write_buffers_def dec foldE_append pre 1)
    have a: "empty_buffer_warning ext b \<in> set w"
      using logged_grows [OF post] by (auto simp: r)
    have b: "b \<notin> set (emitted_buffers ext doc options)"
      using e by (simp add: emitted_buffers_def)
    note p = emitted_props [OF t [unfolded write_buffers_def]]
    have c: "map bd_prop (buffers_of nd)
             = map createPropertyDef (emitted_buffers ext doc options)"
      using p by (simp add: r emitted_buffers_def)
    from views_indexed [OF t [unfolded write_buffers_def]] obtain vss where
      vss: "drop (image_view_count doc options) (json_bufferViews t) = concat vss"
        "length vss = length (listBuffers doc)"
        "\<forall>i<length (listBuffers doc).
           (\<forall>v\<in>set (vss ! i). bv_buffer v = length (?E (take i (listBuffers doc))))
         \<and> map bv_target (vss ! i)
               = view_targets (usage_of (gather_links (getLinks doc) Map.empty)
                                 (listBuffers doc ! i))"
      by blast
    have d: "length (?E (take i (listBuffers doc))) < length (buffers_of nd)
           \<and> bd_prop (buffers_of nd ! length (?E (take i (listBuffers doc))))
               = createPropertyDef (listBuffers doc ! i)
           \<and> (\<forall>v\<in>set (vss ! i). bv_buffer v = length (?E (take i (listBuffers doc))))"
      if i: "i < length (listBuffers doc)"
        and ne: "buffer_bytes ext doc options (listBuffers doc ! i) \<noteq> []" for i
    proof -
      let ?k = "length (?E (take i (listBuffers doc)))"
      from arg_cong [OF c, of length]
      have l: "length (buffers_of nd) = length (?E (listBuffers doc))"
        by (simp add: emitted_buffers_def)
      from filter_counted_less [of i "listBuffers doc"
          "\<lambda>x. buffer_bytes ext doc options x \<noteq> []", OF i ne]
      have k: "?k < length (buffers_of nd)" by (simp add: l)
      from k have "bd_prop (buffers_of nd ! ?k) = map bd_prop (buffers_of nd) ! ?k"
        by simp
      also have "\<dots> = createPropertyDef (?E (listBuffers doc) ! ?k)"
        using k l by (simp add: c emitted_buffers_def del: map_eq_conv)
      also have "?E (listBuffers doc) ! ?k = listBuffers doc ! i"
        by (rule filter_nth_counted [of i "listBuffers doc"
              "\<lambda>x. buffer_bytes ext doc options x \<noteq> []", OF i ne])
      finally show ?thesis using k vss(3) i by simp
    qed
    have tg: "map bv_target (vss ! i)
               = view_targets (usage_of (gather_links (getLinks doc) Map.empty)
                                 (listBuffers doc ! i))" if "i < length (listBuffers doc)" for i
      using vss(3) that by simp
    from a b c vss(1,2) d tg show ?thesis
      unfolding r by blast
  qed
  from 1 f(1,2) 2 3 4 show ?thesis by blast
qed

theorem empty_buffer_is_skipped_witness:
  "buffer_step sample_externals skipped_buffer_document external_options
       (sample_buffer ''empty'' [ParentRoot])
       (initial_buffer_state skipped_buffer_document external_options)
     = Inr ((initial_buffer_state skipped_buffer_document external_options)
              \<lparr>logged := [empty_buffer_warning sample_externals
                             (sample_buffer ''empty'' [ParentRoot])]\<rparr>)
   \<and> (case GLTFWriter_write sample_externals skipped_buffer_document external_options of
         Inl e \<Rightarrow> False
       | Inr (nd, w) \<Rightarrow>
           w = [''@gltf-transform/core: Skipping empty buffer, \"empty\".'']
         \<and> map (def_name \<circ> bd_prop) (buffers_of nd) = [Some ''buf'']
         \<and> map bv_buffer (bufferViews_of nd) = [0])"
proof -
  let ?D = "skipped_buffer_document"
  let ?B = "sample_buffer ''empty'' [ParentRoot]"
  let ?S0 = "initial_buffer_state ?D external_options"
  have dec: "listBuffers ?D = [] @ ?B
      # [sample_buffer ''buf'' [ParentRoot, ParentAccessor (byte_accessor 0 ''a'' [1, 2, 3, 4])]]"
    by (simp add: skipped_buffer_document_def empty_document_def)
  have pre: "foldE (buffer_step sample_externals ?D external_options) [] ?S0 = Inr ?S0"
    by simp
  have pk: "pack_buffer sample_externals (gather_links (getLinks ?D) Map.empty)
               (ist_images (write_textures ?D external_options))
               (ist_imageData (write_textures ?D external_options)) ?B ?S0 = Inr ([], 0, ?S0)"
    by (simp add: writer_eval sample_defs skipped_buffer_document_def)
  have l0: "logged ?S0 = []"
    by (simp add: initial_buffer_state_def)
  note t = empty_buffer_is_skipped [OF dec pre pk, unfolded l0 append_Nil]
  from t have 1: "buffer_step sample_externals ?D external_options ?B ?S0
      = Inr (?S0\<lparr>logged := [empty_buffer_warning sample_externals ?B]\<rparr>)"
    by (elim conjE)
  from t have 2: "GLTFWriter_write sample_externals ?D external_options
        = (case foldE (buffer_step sample_externals ?D external_options)
                  [sample_buffer ''buf''
                     [ParentRoot, ParentAccessor (byte_accessor 0 ''a'' [1, 2, 3, 4])]]
                  (?S0\<lparr>logged := [empty_buffer_warning sample_externals ?B]\<rparr>) of
             Inl e \<Rightarrow> Inl e
           | Inr t \<Rightarrow> Inr (\<lparr>json = clean (root_json ?D external_options t),
                            nd_resources = resources t\<rparr>, logged t))"
    by (elim conjE)
  have 3: "(case GLTFWriter_write sample_externals ?D external_options of
         Inl e \<Rightarrow> False
       | Inr (nd, w) \<Rightarrow>
           w = [''@gltf-transform/core: Skipping empty buffer, \"empty\".'']
         \<and> map (def_name \<circ> bd_prop) (buffers_of nd) = [Some ''buf'']
         \<and> map bv_buffer (bufferViews_of nd) = [0])"
    unfolding 2
    by (simp add: writer_eval sample_defs skipped_buffer_document_def buffers_of_def
        bufferViews_of_def)
  from 1 3 show ?thesis by simp
qed

text \<open>An empty buffer is listed before a buffer whose accessor is both a vertex attribute
  and the indices of a primitive: the empty buffer is packed to zero bytes and skipped, and
  the write ends with the fatal error of the second buffer.\<close>

theorem skipped_then_fatal_counterexample:
  "listBuffers skipped_then_mixed_document = [sample_buffer ''empty'' [ParentRoot], mixed_buffer]
   \<and> pack_buffer sample_externals (gather_links (getLinks skipped_then_mixed_document) Map.empty)
        (ist_images (write_textures skipped_then_mixed_document external_options))
        (ist_imageData (write_textures skipped_then_mixed_document external_options))
        (sample_buffer ''empty'' [ParentRoot])
        (initial_buffer_state skipped_then_mixed_document external_options)
      = Inr ([], 0, initial_buffer_state skipped_then_mixed_document external_options)
   \<and> GLTFWriter_write sample_externals skipped_then_mixed_document external_options
      = Inl AttributeOrIndexAccessorsMustBeUsedOnlyForThatPurpose"
  by (simp add: writer_eval sample_defs skipped_then_mixed_document_def mixed_role_document_def
      mixed_buffer_def mixed_accessor_def)

section \<open>Order of the emitted arrays\<close>

text \<open>C4, as amended. The images, materials, meshes, cameras, nodes, skins, animations
  and scenes are emitted in root listing order, and the buffers in root listing order
  without those that have no bytes. The samplers and the textures are emitted in the
  order in which the texture slots of the listed materials first use them. The accessors
  are emitted in packing order: buffer by buffer, the index accessors, then the attribute
  accessors of each primitive, then the other accessors. In \<open>json.bufferViews\<close> the views
  reserved for images (one for each texture in GLB or embedded mode) come first; they are
  followed, buffer by buffer, by the index view, the attribute views of each primitive and
  the view of the other accessors.\<close>

theorem arrays_in_emission_order:
  assumes "GLTFWriter_write ext doc options = Inr (nd, w)"
  shows "map img_prop (images_of nd) = map createPropertyDef (listTextures doc)
    \<and> map md_prop (materials_of nd) = map createPropertyDef (listMaterials doc)
    \<and> (\<exists>a m. meshes_of nd = map (write_mesh a m) (listMeshes doc))
    \<and> cameras_of nd = map write_camera (listCameras doc)
    \<and> (\<exists>m c k n. nodes_of nd = map (\<lambda>x. attach_node m c k n x (write_node x)) (listNodes doc))
    \<and> (\<exists>a n. skins_of nd = map (write_skin a n) (listSkins doc))
    \<and> (\<exists>a n. animations_of nd = map (write_animation a n) (listAnimations doc))
    \<and> (\<exists>n. scenes_of nd = map (write_scene n) (listScenes doc))
    \<and> map bd_prop (buffers_of nd) = map createPropertyDef (emitted_buffers ext doc options)
    \<and> samplers_of nd
        = first_uses (map (\<lambda>sl. spec_sampler (slot_sampler sl)) (all_slots (listMaterials doc)))
    \<and> textures_of nd
        = first_uses (map (spec_texture (listTextures doc) (samplers_of nd))
            (all_slots (listMaterials doc)))
    \<and> map strip_def (accessors_of nd) = map createAccessorDef
          (concat (map (\<lambda>b. packed_accessors (usage_of (gather_links (getLinks doc) Map.empty) b))
                     (listBuffers doc)))
    \<and> (\<exists>imgs vss. bufferViews_of nd = imgs @ concat vss
          \<and> length imgs = image_view_count doc options
          \<and> (\<forall>v\<in>set imgs. bv_buffer v = 0 \<and> bv_target v = None \<and> bv_byteStride v = None)
          \<and> map (map bv_target) vss
              = map (\<lambda>b. view_targets (usage_of (gather_links (getLinks doc) Map.empty) b))
                  (listBuffers doc))"
proof -
  let ?links = "gather_links (getLinks doc) Map.empty"
  let ?ist = "write_textures doc options"
  let ?imgs = "ist_bufferViews ?ist"
  from assms obtain s where s: "write_buffers ext doc options = Inr s"
    and r: "accessors_of nd = json_accessors s" "bufferViews_of nd = json_bufferViews s"
    "buffers_of nd = json_buffers s" "images_of nd = ist_images ?ist"
    by (rule written_documents)
  from assms obtain s2 where j: "json nd = clean (root_json doc options s2)"
    by (rule write_Inr_json)
  note wr = write_buffers_written [OF s]
  note ok = write_textures_ok [where doc = doc and options = options]
  have 1: "map img_prop (images_of nd) = map createPropertyDef (listTextures doc)"
    using ok(2) r(4) by simp
  obtain defs ts where m: "write_all_materials doc options = (defs, ts)"
    by (cases "write_all_materials doc options")
  have "materials_of nd = defs"
    using clean_root_json_materials(3) [OF m, of s2] by (simp add: materials_of_def j)
  moreover have "map md_prop defs = map createPropertyDef (listMaterials doc)"
    using write_materials_props [of "ist_imageIndexMap ?ist" "listMaterials doc"
        "\<lparr>json_samplers = [], json_textures = [],
          samplerIndexMap = Map.empty, textureIndexMap = Map.empty\<rparr>"] m
    by (simp add: write_all_materials_def)
  ultimately have 2: "map md_prop (materials_of nd) = map createPropertyDef (listMaterials doc)"
    by simp
  have 3: "\<exists>a m. meshes_of nd = map (write_mesh a m) (listMeshes doc)"
    by (intro exI [of _ "accessorIndexMap s2"]
          exI [of _ "index_table (map mat_id (listMaterials doc)) 0 Map.empty"])
       (simp add: meshes_of_def j map_of_clean_key root_json_keys root_json_lookup)
  have 4: "cameras_of nd = map write_camera (listCameras doc)"
    by (simp add: cameras_of_def j map_of_clean_key root_json_keys root_json_lookup)
  have 5: "\<exists>m c k n. nodes_of nd = map (\<lambda>x. attach_node m c k n x (write_node x)) (listNodes doc)"
    by (intro exI [of _ "index_table (map mesh_id (listMeshes doc)) 0 Map.empty"]
          exI [of _ "index_table (map cam_id (listCameras doc)) 0 Map.empty"]
          exI [of _ "index_table (map skin_id (listSkins doc)) 0 Map.empty"]
          exI [of _ "index_table (map node_id (listNodes doc)) 0 Map.empty"])
       (simp add: nodes_of_def j map_of_clean_key root_json_keys root_json_lookup)
  have 6: "\<exists>a n. skins_of nd = map (write_skin a n) (listSkins doc)"
    by (intro exI [of _ "accessorIndexMap s2"]
          exI [of _ "index_table (map node_id (listNodes doc)) 0 Map.empty"])
       (simp add: skins_of_def j map_of_clean_key root_json_keys root_json_lookup)
  have 7: "\<exists>a n. animations_of nd = map (write_animation a n) (listAnimations doc)"
    by (intro exI [of _ "accessorIndexMap s2"]
          exI [of _ "index_table (map node_id (listNodes doc)) 0 Map.empty"])
       (simp add: animations_of_def j map_of_clean_key root_json_keys root_json_lookup)
  have 8: "\<exists>n. scenes_of nd = map (write_scene n) (listScenes doc)"
    by (intro exI [of _ "index_table (map node_id (listNodes doc)) 0 Map.empty"])
       (simp add: scenes_of_def j map_of_clean_key root_json_keys root_json_lookup)
  have 9: "map bd_prop (buffers_of nd) = map createPropertyDef (emitted_buffers ext doc options)"
    using emitted_props [OF s [unfolded write_buffers_def]] by (simp add: r emitted_buffers_def)
  from assms obtain defs' ts' where m': "write_all_materials doc options = (defs', ts')"
    and r': "samplers_of nd = json_samplers ts'" "textures_of nd = json_textures ts'"
    by (rule written_materials)
  have 12: "samplers_of nd
        = first_uses (map (\<lambda>sl. spec_sampler (slot_sampler sl)) (all_slots (listMaterials doc)))"
    unfolding r' by (rule materials_pass(1) [OF m'])
  have 13: "textures_of nd
        = first_uses (map (spec_texture (listTextures doc) (samplers_of nd))
            (all_slots (listMaterials doc)))"
    unfolding r' by (rule materials_pass(2) [OF m'])
  have 10: "map strip_def (accessors_of nd) = map createAccessorDef
          (concat (map (\<lambda>b. packed_accessors (usage_of ?links b)) (listBuffers doc)))"
    using wr by (simp add: written_def r)
  from wr obtain vss where vss: "drop (length ?imgs) (json_bufferViews s) = concat vss"
    "map (map bv_target) vss = map (\<lambda>b. view_targets (usage_of ?links b)) (listBuffers doc)"
    by (auto simp: written_def)
  from wr have le: "length ?imgs \<le> length (json_bufferViews s)"
    and same: "list_all2 same_but_offset ?imgs (take (length ?imgs) (json_bufferViews s))"
    by (simp_all add: written_def)
  have cnt: "length ?imgs = image_view_count doc options"
    using ok by (auto simp: images_ok_def image_view_count_def dest: arg_cong [of _ _ length])
  have shape: "\<forall>v\<in>set (take (length ?imgs) (json_bufferViews s)).
      bv_buffer v = 0 \<and> bv_target v = None \<and> bv_byteStride v = None"
  proof
    fix v assume "v \<in> set (take (length ?imgs) (json_bufferViews s))"
    then obtain i where i: "i < length (take (length ?imgs) (json_bufferViews s))"
      "take (length ?imgs) (json_bufferViews s) ! i = v"
      by (auto simp: in_set_conv_nth)
    with same have sb: "same_but_offset (?imgs ! i) v" and il: "i < length ?imgs"
      by (auto simp: list_all2_conv_all_nth)
    from il ok(1) have "bv_buffer (?imgs ! i) = 0 \<and> bv_target (?imgs ! i) = None
        \<and> bv_byteStride (?imgs ! i) = None"
      by (simp add: images_ok_def)
    with sb show "bv_buffer v = 0 \<and> bv_target v = None \<and> bv_byteStride v = None"
      by (cases v, cases "?imgs ! i") (auto simp: same_but_offset_def)
  qed
  have 11: "\<exists>imgs vss. bufferViews_of nd = imgs @ concat vss
          \<and> length imgs = image_view_count doc options
          \<and> (\<forall>v\<in>set imgs. bv_buffer v = 0 \<and> bv_target v = None \<and> bv_byteStride v = None)
          \<and> map (map bv_target) vss = map (\<lambda>b. view_targets (usage_of ?links b)) (listBuffers doc)"
  proof (intro exI [of _ "take (length ?imgs) (json_bufferViews s)"] exI [of _ vss] conjI)
    show "bufferViews_of nd = take (length ?imgs) (json_bufferViews s) @ concat vss"
      unfolding r vss(1) [symmetric] by (rule append_take_drop_id [symmetric])
    show "length (take (length ?imgs) (json_bufferViews s)) = image_view_count doc options"
      using le cnt by simp
  qed (use shape vss(2) in auto)
  show ?thesis
    by (intro conjI) (rule 1 2 3 4 5 6 7 8 9 12 13 10 11)+
qed

lemma reordered_run:
  "GLTFWriter_write sample_externals reordered_document glb_options
     = Inr (reordered_native, [])"
  by (simp add: writer_eval sample_defs reordered_document_def image_first_document_def
      reordered_native_def write_materials.simps write_material_def slot_def_def
      createTextureInfoDef_def stringify_sampler_def stringify_texture_def stringify_field_def
      or_undefined_def sample_material_def sample_slot_def)

theorem arrays_in_emission_order_witness:
  "case GLTFWriter_write sample_externals reordered_document glb_options of
     Inl e \<Rightarrow> False
   | Inr (nd, w) \<Rightarrow>
       (\<exists>imgs vss. bufferViews_of nd = imgs @ concat vss \<and> length imgs = 2
          \<and> map (map bv_target) vss = [[Some 34963, None]])
       \<and> textures_of nd = [\<lparr>td_source = Some 1, td_sampler = Some 0\<rparr>,
                            \<lparr>td_source = Some 0, td_sampler = Some 0\<rparr>]
       \<and> map (def_name \<circ> bd_prop) (buffers_of nd) = [Some ''buf'']"
proof -
  have cnt: "image_view_count reordered_document glb_options = 2"
    by (simp add: image_view_count_def reordered_document_def glb_options_def)
  note t = arrays_in_emission_order [OF reordered_run]
  from t
  have "\<exists>imgs vss. bufferViews_of reordered_native = imgs @ concat vss
          \<and> length imgs = image_view_count reordered_document glb_options
          \<and> (\<forall>v\<in>set imgs. bv_buffer v = 0 \<and> bv_target v = None \<and> bv_byteStride v = None)
          \<and> map (map bv_target) vss
              = map (\<lambda>b. view_targets (usage_of (gather_links (getLinks reordered_document) Map.empty) b))
                  (listBuffers reordered_document)"
    by (elim conjE)
  then obtain imgs vss where
    1: "bufferViews_of reordered_native = imgs @ concat vss"
    and 2: "length imgs = image_view_count reordered_document glb_options"
    and 3: "map (map bv_target) vss
       = map (\<lambda>b. view_targets (usage_of (gather_links (getLinks reordered_document) Map.empty) b))
           (listBuffers reordered_document)"
    by blast
  have "map (\<lambda>b. view_targets (usage_of (gather_links (getLinks reordered_document) Map.empty) b))
           (listBuffers reordered_document) = [[Some 34963, None]]"
    by (simp add: usage_of_def writer_eval sample_defs reordered_document_def
        image_first_document_def view_targets_def)
  with 3 have 4: "map (map bv_target) vss = [[Some 34963, None]]"
    by (simp only:)
  from 1 2 [unfolded cnt] 4
  have 5: "\<exists>imgs vss. bufferViews_of reordered_native = imgs @ concat vss
      \<and> length imgs = 2 \<and> map (map bv_target) vss = [[Some 34963, None]]"
    by (intro exI [of _ imgs] exI [of _ vss] conjI)
  from t have "textures_of reordered_native
        = first_uses (map (spec_texture (listTextures reordered_document)
                             (samplers_of reordered_native))
            (all_slots (listMaterials reordered_document)))"
    by (elim conjE)
  also have "\<dots> = [\<lparr>td_source = Some 1, td_sampler = Some 0\<rparr>,
                    \<lparr>td_source = Some 0, td_sampler = Some 0\<rparr>]"
    by (simp add: first_uses_def spec_texture_def image_source_def spec_sampler_def
        all_slots_def material_slots_def reordered_document_def sample_material_def
        sample_slot_def sample_texture_def samplers_of_def reordered_native_def)
  finally have 6: "textures_of reordered_native
      = [\<lparr>td_source = Some 1, td_sampler = Some 0\<rparr>, \<lparr>td_source = Some 0, td_sampler = Some 0\<rparr>]" .
  from t have "map bd_prop (buffers_of reordered_native)
      = map createPropertyDef (emitted_buffers sample_externals reordered_document glb_options)"
    by (elim conjE)
  also have "\<dots> = [\<lparr>def_name = Some ''buf'', def_extras = None, def_extensions = None\<rparr>]"
    by (simp add: emitted_buffers_def buffer_bytes_def usage_of_def padded_blob_def
        writer_eval sample_defs reordered_document_def image_first_document_def)
  finally have bp: "map bd_prop (buffers_of reordered_native)
      = [\<lparr>def_name = Some ''buf'', def_extras = None, def_extensions = None\<rparr>]" .
  have 7: "map (def_name \<circ> bd_prop) (buffers_of reordered_native) = [Some ''buf'']"
    using arg_cong [OF bp, of "map def_name"] by simp
  from 5 6 7 show ?thesis
    unfolding reordered_run by simp
qed

text \<open>A GLB document that lists two textures, two materials of which the first uses the
  second texture, and one buffer whose other accessor is listed before its index accessor.
  The views of the images are the first entries of \<open>json.bufferViews\<close>, not the last; the
  index accessor is emitted before the other accessor; and the first texture definition
  is the one with the second listed image.\<close>

theorem image_views_first_counterexample:
  "GLTFWriter_write sample_externals reordered_document glb_options
     = Inr (reordered_native, [])
   \<and> map img_bufferView (images_of reordered_native) = [Some 0, Some 1]
   \<and> map bv_target (bufferViews_of reordered_native) = [None, None, Some 34963, None]
   \<and> listBuffers reordered_document
       = [sample_buffer ''buf''
           [ParentRoot, ParentAccessor (byte_accessor 0 ''other'' [1, 2, 3, 4]),
            ParentAccessor (byte_accessor 1 ''indices'' [0, 1, 2, 0])]]
   \<and> map (def_name \<circ> ad_prop) (accessors_of reordered_native)
       = [Some ''indices'', Some ''other'']
   \<and> map tex_id (listTextures reordered_document) = [0, 1]
   \<and> map td_source (textures_of reordered_native) = [Some 1, Some 0]"
proof -
  have "map img_bufferView (images_of reordered_native) = [Some 0, Some 1]"
    "map bv_target (bufferViews_of reordered_native) = [None, None, Some 34963, None]"
    "map (def_name \<circ> ad_prop) (accessors_of reordered_native) = [Some ''indices'', Some ''other'']"
    "map td_source (textures_of reordered_native) = [Some 1, Some 0]"
    by (simp_all add: reordered_native_def bufferViews_of_def images_of_def accessors_of_def
        textures_of_def)
  moreover have "listBuffers reordered_document
       = [sample_buffer ''buf''
           [ParentRoot, ParentAccessor (byte_accessor 0 ''other'' [1, 2, 3, 4]),
            ParentAccessor (byte_accessor 1 ''indices'' [0, 1, 2, 0])]]"
    "map tex_id (listTextures reordered_document) = [0, 1]"
    by (simp_all add: reordered_document_def image_first_document_def sample_texture_def)
  ultimately show ?thesis
    using reordered_run by (intro conjI)
qed

end
